theory Spec2Isabelle
  imports Main "HOL-Library.Word"
begin

section \<open>Data model of zsnprintf.c\<close>

text \<open>
  The enumerations and the flag structure of the source.  The bit-fields of
  \<open>fmt_flags_t\<close> hold an enumeration value or a single bit each, so they are
  modelled by the enumeration itself and by \<open>bool\<close>.
\<close>

datatype sign_t = auto_sign | always_sign | sign_or_space

datatype exp_form_t = exp_none | exp_e | exp_E

record fmt_flags_t =
  leftAlign :: bool
  sign :: sign_t
  altForm :: bool
  zeropad :: bool
  exp :: exp_form_t

text \<open>The initializer \<open>{ 0 }\<close>: every field zero.\<close>

definition flags0 :: fmt_flags_t where
  "flags0 = \<lparr> leftAlign = False, sign = auto_sign, altForm = False,
              zeropad = False, exp = exp_none \<rparr>"

text \<open>
  \<open>int_size_t\<close> is declared in the order \<open>ZS64, ZS32, ZS16\<close>, so the enumerators
  have the values 0, 1 and 2; the comparisons \<open>size >= ZS32\<close> and
  \<open>size >= ZS64\<close> of the source compare these values.
\<close>

datatype int_size_t = ZS64 | ZS32 | ZS16

fun int_size_val :: "int_size_t \<Rightarrow> nat" where
  "int_size_val ZS64 = 0"
| "int_size_val ZS32 = 1"
| "int_size_val ZS16 = 2"

section \<open>Character helpers\<close>

definition DTOCHAR :: "nat \<Rightarrow> char" where
  "DTOCHAR d = char_of (d + of_char CHR ''0'')"

definition xTOCHAR :: "nat \<Rightarrow> char" where
  "xTOCHAR x = (if x \<ge> 10 then char_of (x - 10 + of_char CHR ''a'') else DTOCHAR x)"

definition XTOCHAR :: "nat \<Rightarrow> char" where
  "XTOCHAR x = (if x \<ge> 10 then char_of (x - 10 + of_char CHR ''A'') else DTOCHAR x)"

text \<open>The macro \<open>addSign\<close>; its argument \<open>_n < 0\<close> is passed as a flag.\<close>

definition addSign :: "bool \<Rightarrow> fmt_flags_t \<Rightarrow> string" where
  "addSign neg flags =
     (if neg then ''-''
      else if sign flags = always_sign then ''+''
      else if sign flags = sign_or_space then '' ''
      else [])"

text \<open>
  The padding loop \<open>for (unsigned i = width; i > first_digit; --i) { *buf = c; ++buf; }\<close>
  returns the characters it stores.
\<close>

fun pad_loop :: "nat \<Rightarrow> nat \<Rightarrow> char \<Rightarrow> string" where
  "pad_loop i first_digit c =
     (if i > first_digit then c # pad_loop (i - 1) first_digit c else [])"

declare pad_loop.simps [simp del]

text \<open>
  The chain \<open>if (d1) { first_digit = 1; } if (d2) { first_digit = 2; } ...\<close>:
  the digits \<open>d1, d2, ...\<close> are visited in ascending order and every non-zero one
  overwrites \<open>first_digit\<close> with its index.
\<close>

fun scan_first_digit :: "nat \<Rightarrow> nat \<Rightarrow> nat list \<Rightarrow> nat" where
  "scan_first_digit fd i [] = fd"
| "scan_first_digit fd i (d # ds) = scan_first_digit (if d \<noteq> 0 then i else fd) (Suc i) ds"

text \<open>
  The fall-through \<open>switch (first_digit)\<close> followed by the store of \<open>d0\<close>: the digits
  \<open>d[first_digit], ..., d1, d0\<close> are stored in this order.  \<open>ds\<close> lists the digits
  from \<open>d0\<close> upwards.
\<close>

definition emit_digits :: "(nat \<Rightarrow> char) \<Rightarrow> nat \<Rightarrow> nat list \<Rightarrow> string" where
  "emit_digits tochar first_digit ds = map tochar (rev (take (Suc first_digit) ds))"

text \<open>
  The width block of the unsigned renderers.  \<open>cap\<close> is the constant of the
  renderer (4, 9, 15, 20 or 21): a width above it becomes \<open>cap\<close>, any other
  non-zero width is decremented.
\<close>

definition pad_unsigned :: "nat \<Rightarrow> nat \<Rightarrow> nat \<Rightarrow> fmt_flags_t \<Rightarrow> string" where
  "pad_unsigned cap width first_digit flags =
     (if width \<noteq> 0 then
        (let width' = (if width > cap then cap else width - 1) in
         if zeropad flags then pad_loop width' first_digit CHR ''0''
         else pad_loop width' first_digit CHR '' '')
      else [])"

text \<open>The width block of the signed renderers, with the sign before zeros and after spaces.\<close>

definition pad_signed :: "nat \<Rightarrow> bool \<Rightarrow> nat \<Rightarrow> nat \<Rightarrow> fmt_flags_t \<Rightarrow> string" where
  "pad_signed cap neg width first_digit flags =
     (if width \<noteq> 0 then
        (let width' = (if width > cap then cap else width - 1) in
         if zeropad flags then addSign neg flags @ pad_loop width' first_digit CHR ''0''
         else pad_loop width' first_digit CHR '' '' @ addSign neg flags)
      else addSign neg flags)"

section \<open>Decimal renderers, 32 bits\<close>

text \<open>
  The digit extraction shared (as duplicated text) by \<open>zi32toa\<close> and \<open>zu32toa\<close>.
  \<open>(x >> 4k) & 0xF\<close> is \<open>x div 16 ^ k mod 16\<close>; a value stored in a \<open>uint8_t\<close> is
  reduced \<open>mod 256\<close>, one stored in a \<open>uint16_t\<close> \<open>mod 65536\<close>.  The branches
  \<open>if (a) { q = a / 10; d = a % 10; } else { q = d = 0; }\<close> compute \<open>a div 10\<close> and
  \<open>a mod 10\<close> in both cases.  The result lists \<open>d0, ..., d9\<close>.
\<close>

definition dec32_digits :: "nat \<Rightarrow> nat list" where
  "dec32_digits x =
    (let n0 = x mod 16; n1 = x div 16 mod 16; n2 = x div 16 ^ 2 mod 16;
         n3 = x div 16 ^ 3 mod 16; n4 = x div 16 ^ 4 mod 16; n5 = x div 16 ^ 5 mod 16;
         n6 = x div 16 ^ 6 mod 16; n7 = x div 16 ^ 7 mod 16;
         a0 = (6 * (n7 + n6 + n5 + n4 + n3 + n2 + n1) + n0) mod 65536;
         q0 = (a0 div 10) mod 256; d0 = a0 mod 10;
         a1 = (q0 + 5*n7 + n6 + 7*n5 + 3*n4 + 9*n3 + 5*n2 + n1) mod 65536;
         q1 = (a1 div 10) mod 256; d1 = a1 mod 10;
         a2 = (q1 + 4*n7 + 2*n6 + 5*n5 + 5*n4 + 2*n2) mod 65536;
         q2 = (a2 div 10) mod 256; d2 = a2 mod 10;
         a3 = (q2 + 5*n7 + 7*n6 + 8*n5 + 5*n4 + 4*n3) mod 65536;
         q3 = (a3 div 10) mod 256; d3 = a3 mod 10;
         a4 = (q3 + 3*n7 + 7*n6 + 4*n5 + 6*n4) mod 65536;
         q4 = (a4 div 10) mod 256; d4 = a4 mod 10;
         a5 = (q4 + 4*n7 + 7*n6) mod 256;
         q5 = a5 div 10; d5 = a5 mod 10;
         a6 = (q5 + 8*n7 + 6*n6 + n5) mod 256;
         q6 = a6 div 10; d6 = a6 mod 10;
         a7 = (q6 + 6*n7 + n6) mod 256;
         q7 = a7 div 10; d7 = a7 mod 10;
         a8 = (q7 + 2*n7) mod 256;
         q8 = a8 div 10; d8 = a8 mod 10;
         d9 = q8
     in [d0, d1, d2, d3, d4, d5, d6, d7, d8, d9])"

text \<open>
  \<open>zi32toa\<close>.  The argument is the 32-bit pattern of \<open>n\<close>; \<open>absn\<close> is \<open>-n\<close> converted
  to \<open>uint32_t\<close>, which for \<open>INT32_MIN\<close> is \<open>2 ^ 31\<close> (the negation wraps).  The result
  is the text stored in \<open>buf\<close> before the terminating NUL.
\<close>

definition zi32toa :: "32 word \<Rightarrow> nat \<Rightarrow> fmt_flags_t \<Rightarrow> string" where
  "zi32toa n width flags =
    (let neg = (sint n < 0);
         absn = unat (if neg then - n else n);
         ds = dec32_digits absn;
         first_digit = scan_first_digit 0 1 (tl ds)
     in pad_signed 9 neg width first_digit flags @ emit_digits DTOCHAR first_digit ds)"

definition zu32toa :: "32 word \<Rightarrow> nat \<Rightarrow> fmt_flags_t \<Rightarrow> string" where
  "zu32toa n width flags =
    (let ds = dec32_digits (unat n);
         first_digit = scan_first_digit 0 1 (tl ds)
     in pad_unsigned 9 width first_digit flags @ emit_digits DTOCHAR first_digit ds)"

section \<open>Decimal renderers, 16 bits\<close>

text \<open>
  The digit extraction of \<open>zi16toa\<close> and \<open>zu16toa\<close>.  The source reuses the variables
  \<open>d0, ..., d3\<close>: they first hold the hexadecimal digits (here \<open>h0, ..., h3\<close>) and are
  overwritten one by one with the decimal digits; each sum reads hexadecimal digits that
  have not been overwritten yet.  \<open>d0\<close> is a \<open>uint16_t\<close>, the others and \<open>q\<close> are
  \<open>uint8_t\<close>.
\<close>

definition dec16_digits :: "nat \<Rightarrow> nat list" where
  "dec16_digits x =
    (let h0 = x mod 16; h1 = x div 16 mod 16; h2 = x div 16 ^ 2 mod 16;
         h3 = x div 16 ^ 3 mod 16;
         s0 = (6 * (h3 + h2 + h1) + h0) mod 65536;
         q0 = (s0 div 10) mod 256; d0 = s0 mod 10;
         s1 = (q0 + 9*h3 + 5*h2 + h1) mod 256;
         q1 = s1 div 10; d1 = s1 mod 10;
         s2 = (q1 + 2*h2) mod 256;
         q2 = s2 div 10; d2 = s2 mod 10;
         s3 = (q2 + 4*h3) mod 256;
         q3 = s3 div 10; d3 = s3 mod 10;
         d4 = q3
     in [d0, d1, d2, d3, d4])"

definition zi16toa :: "16 word \<Rightarrow> nat \<Rightarrow> fmt_flags_t \<Rightarrow> string" where
  "zi16toa n width flags =
    (let neg = (sint n < 0);
         absn = unat (if neg then - n else n);
         ds = dec16_digits absn;
         first_digit = scan_first_digit 0 1 (tl ds)
     in pad_signed 4 neg width first_digit flags @ emit_digits DTOCHAR first_digit ds)"

definition zu16toa :: "16 word \<Rightarrow> nat \<Rightarrow> fmt_flags_t \<Rightarrow> string" where
  "zu16toa n width flags =
    (let ds = dec16_digits (unat n);
         first_digit = scan_first_digit 0 1 (tl ds)
     in pad_unsigned 4 width first_digit flags @ emit_digits DTOCHAR first_digit ds)"

section \<open>Hexadecimal and octal renderers\<close>

text \<open>
  \<open>zx64toa\<close> extracts the digits \<open>d0..d3\<close> always, \<open>d4..d7\<close> under
  \<open>size >= ZS32\<close> and \<open>d8..d15\<close> under \<open>size >= ZS64\<close>; the parameter \<open>size\<close> is \<open>sz\<close> here; a digit that is not
  extracted keeps its initial value 0 and does not touch \<open>first_digit\<close>.
\<close>

definition hex_extracted :: "int_size_t \<Rightarrow> nat \<Rightarrow> bool" where
  "hex_extracted sz k =
     (k < 4 \<or> (k < 8 \<and> int_size_val sz \<ge> int_size_val ZS32)
            \<or> (8 \<le> k \<and> int_size_val sz \<ge> int_size_val ZS64))"

definition hex_digits :: "int_size_t \<Rightarrow> nat \<Rightarrow> nat list" where
  "hex_digits sz x =
     map (\<lambda>k. if hex_extracted sz k then x div 16 ^ k mod 16 else 0) [0..<16]"

definition zx64toa :: "int_size_t \<Rightarrow> 64 word \<Rightarrow> nat \<Rightarrow> fmt_flags_t \<Rightarrow> bool \<Rightarrow> string" where
  "zx64toa sz n width flags upper =
    (let tochar = (if upper then XTOCHAR else xTOCHAR);
         ds = hex_digits sz (unat n);
         first_digit = scan_first_digit 0 1 (tl ds)
     in pad_unsigned 15 width first_digit flags @ emit_digits tochar first_digit ds)"

text \<open>
  \<open>zo64toa\<close>: \<open>d0..d5\<close> always, \<open>d6..d10\<close> under \<open>size >= ZS32\<close>, \<open>d11..d21\<close> under
  \<open>size >= ZS64\<close>; the digit \<open>k\<close> is \<open>(n >> 3k) & 0x7\<close>.
\<close>

definition oct_extracted :: "int_size_t \<Rightarrow> nat \<Rightarrow> bool" where
  "oct_extracted sz k =
     (k < 6 \<or> (k < 11 \<and> int_size_val sz \<ge> int_size_val ZS32)
            \<or> (11 \<le> k \<and> int_size_val sz \<ge> int_size_val ZS64))"

definition oct_digits :: "int_size_t \<Rightarrow> nat \<Rightarrow> nat list" where
  "oct_digits sz x =
     map (\<lambda>k. if oct_extracted sz k then x div 8 ^ k mod 8 else 0) [0..<22]"

definition zo64toa :: "int_size_t \<Rightarrow> 64 word \<Rightarrow> nat \<Rightarrow> fmt_flags_t \<Rightarrow> string" where
  "zo64toa sz n width flags =
    (let ds = oct_digits sz (unat n);
         first_digit = scan_first_digit 0 1 (tl ds)
     in pad_unsigned 21 width first_digit flags @ emit_digits XTOCHAR first_digit ds)"

section \<open>Decimal renderers, 64 bits\<close>

text \<open>
  \<open>reverse\<close> swaps \<open>buf[start]\<close> and \<open>buf[end]\<close> while \<open>start < end\<close>.
\<close>

function reverse_loop :: "string \<Rightarrow> nat \<Rightarrow> nat \<Rightarrow> string" where
  "reverse_loop buf start e =
     (if start < e
      then reverse_loop (buf[start := buf ! e, e := buf ! start]) (start + 1) (e - 1)
      else buf)"
  by pat_completeness auto
termination
  by (relation "measure (\<lambda>(buf, start, e). e - start)") auto

declare reverse_loop.simps [simp del]

definition reverse :: "string \<Rightarrow> nat \<Rightarrow> string" where
  "reverse buf e = reverse_loop buf 0 e"

text \<open>
  The loop \<open>while (n) { tmp[first_digit] = n % 10 + '0'; n = n / 10; ++first_digit; }\<close>
  returns the characters stored in \<open>tmp[0], tmp[1], ...\<close>; their number is the final
  \<open>first_digit\<close>.
\<close>

fun dec_loop :: "nat \<Rightarrow> string" where
  "dec_loop n = (if n = 0 then [] else DTOCHAR (n mod 10) # dec_loop (n div 10))"

declare dec_loop.simps [simp del]

text \<open>
  The part of \<open>zi64toa\<close> and \<open>zu64toa\<close> that fills \<open>tmp\<close>: the pair of the filled
  prefix of \<open>tmp\<close>, reversed, and the index \<open>first_digit\<close> of its last character.
\<close>

definition dec64_tmp :: "nat \<Rightarrow> string \<times> nat" where
  "dec64_tmp x =
     (let tmp = (if x = 0 then ''0'' else dec_loop x);
          first_digit = (if x = 0 then 0 else length tmp - 1)
      in (reverse tmp first_digit, first_digit))"

definition zi64toa :: "64 word \<Rightarrow> nat \<Rightarrow> fmt_flags_t \<Rightarrow> string" where
  "zi64toa n width flags =
    (if - (2 ^ 31) \<le> sint n \<and> sint n \<le> 2 ^ 31 - 1
     then zi32toa (ucast n) width flags
     else
       (let neg = (sint n < 0);
            absn = unat (if neg then - n else n);
            (tmp, first_digit) = dec64_tmp absn
        in pad_signed 19 neg width first_digit flags @ take (first_digit + 1) tmp))"

definition zu64toa :: "64 word \<Rightarrow> nat \<Rightarrow> fmt_flags_t \<Rightarrow> string" where
  "zu64toa n width flags =
    (if unat n \<le> 2 ^ 32 - 1
     then zu32toa (ucast n) width flags
     else
       (let (tmp, first_digit) = dec64_tmp (unat n)
        in pad_unsigned 20 width first_digit flags @ take (first_digit + 1) tmp))"

section \<open>Platform\<close>

text \<open>
  The source selects its integer and floating-point render paths with the preprocessor,
  from \<open>UINT_MAX\<close>, \<open>ULONG_MAX\<close>, the mantissa widths of \<open>float\<close>, \<open>double\<close> and
  \<open>long double\<close>, \<open>SIZE_MAX\<close> and \<open>PTRDIFF_MAX\<close>.  These constants come from the
  compiler's headers, so the model takes them as a parameter: the size class of
  \<open>unsigned int\<close>, whether \<open>unsigned long\<close> has 64 bits (else 32; other widths are
  rejected by \<open>#error\<close>), the three mantissa widths, and the length classes that the
  modifiers \<open>z\<close> and \<open>t\<close> resolve to (\<open>None\<close> where the limit macro is not defined).

  Three more things are fixed by the build and not by the source.  The functions
  \<open>log10f\<close>, \<open>log10l\<close>, \<open>powf\<close> and \<open>powl\<close> belong to the C library, and the C standard
  does not fix their accuracy: \<open>lib_log10 pf p x\<close> is the value of \<open>(int) log10(x)\<close> and
  \<open>lib_pow10 pf p k\<close> the value of \<open>pow(10, k)\<close> in the format with \<open>p\<close> mantissa bits,
  as the library of the platform computes them.  And \<open>zvsnprintf\<close> reads its array \<open>tmp\<close>
  after the block that declares it has ended: \<open>tmp_kept\<close> says whether the build leaves
  the bytes of such an array in place until the function returns.
\<close>

datatype length_t = length_int | length_long | length_long_long

datatype fval = FNaN | FInf bool | FFin bool nat int

record platform =
  int_size :: int_size_t
  long64 :: bool
  flt_mant :: nat
  dbl_mant :: nat
  ldbl_mant :: nat
  size_length :: "length_t option"
  ptrdiff_length :: "length_t option"
  lib_log10 :: "nat \<Rightarrow> fval \<Rightarrow> int"
  lib_pow10 :: "nat \<Rightarrow> int \<Rightarrow> fval"
  tmp_kept :: bool

text \<open>
  The macros \<open>zitoa\<close>, \<open>zutoa\<close>, \<open>zltoa\<close>, \<open>zultoa\<close>, \<open>zlltoa\<close>, \<open>zulltoa\<close> and their
  hexadecimal and octal companions.  An integer argument is converted to the parameter
  type of the selected renderer, which keeps its low bits.
\<close>

definition zitoa :: "platform \<Rightarrow> int \<Rightarrow> nat \<Rightarrow> fmt_flags_t \<Rightarrow> string" where
  "zitoa pf v width flags =
     (case int_size pf of
        ZS16 \<Rightarrow> zi16toa (word_of_int v) width flags
      | ZS32 \<Rightarrow> zi32toa (word_of_int v) width flags
      | ZS64 \<Rightarrow> zi64toa (word_of_int v) width flags)"

definition zutoa :: "platform \<Rightarrow> int \<Rightarrow> nat \<Rightarrow> fmt_flags_t \<Rightarrow> string" where
  "zutoa pf v width flags =
     (case int_size pf of
        ZS16 \<Rightarrow> zu16toa (word_of_int v) width flags
      | ZS32 \<Rightarrow> zu32toa (word_of_int v) width flags
      | ZS64 \<Rightarrow> zu64toa (word_of_int v) width flags)"

definition zltoa :: "platform \<Rightarrow> int \<Rightarrow> nat \<Rightarrow> fmt_flags_t \<Rightarrow> string" where
  "zltoa pf v width flags =
     (if long64 pf then zi64toa (word_of_int v) width flags
      else zi32toa (word_of_int v) width flags)"

definition zultoa :: "platform \<Rightarrow> int \<Rightarrow> nat \<Rightarrow> fmt_flags_t \<Rightarrow> string" where
  "zultoa pf v width flags =
     (if long64 pf then zu64toa (word_of_int v) width flags
      else zu32toa (word_of_int v) width flags)"

section \<open>Floating-point arithmetic\<close>

text \<open>
  A floating-point value is NaN, an infinity with its sign, or a finite value
  \<open>FFin s m e\<close> that stands for \<open>(-1)^s * m * 2^e\<close>; \<open>FFin True 0 e\<close> is the negative
  zero.  Every arithmetic operation computes the exact result and rounds it to the
  nearest value with a mantissa of \<open>p\<close> bits, ties to even.  The exponent range is not
  limited.
\<close>

fun bitlen :: "nat \<Rightarrow> nat" where
  "bitlen n = (if n = 0 then 0 else Suc (bitlen (n div 2)))"

declare bitlen.simps [simp del]

text \<open>
  Rounding of a mantissa to \<open>p\<close> bits: the rounded mantissa and the number of bits
  dropped.  \<open>sticky\<close> says that non-zero bits below \<open>m\<close> have been cut off already.
\<close>

definition round_mant :: "nat \<Rightarrow> nat \<Rightarrow> bool \<Rightarrow> nat \<times> nat" where
  "round_mant p m sticky =
     (let k = bitlen m in
      if k \<le> p then (m, 0)
      else
        (let sh = k - p; q = m div 2 ^ sh; r = m mod 2 ^ sh; half = 2 ^ (sh - 1) in
         (if r > half \<or> (r = half \<and> (sticky \<or> odd q)) then q + 1 else q, sh)))"

definition fround :: "nat \<Rightarrow> bool \<Rightarrow> nat \<Rightarrow> int \<Rightarrow> fval" where
  "fround p s m e = (case round_mant p m False of (q, sh) \<Rightarrow> FFin s q (e + int sh))"

text \<open>The decimal constant \<open>num / den\<close> in a format with \<open>p\<close> mantissa bits.\<close>

definition fconst :: "nat \<Rightarrow> nat \<Rightarrow> nat \<Rightarrow> fval" where
  "fconst p num den =
     (let sh = p + 2 + bitlen den;
          m = (num * 2 ^ sh) div den;
          sticky = ((num * 2 ^ sh) mod den \<noteq> 0)
      in case round_mant p m sticky of (q, k) \<Rightarrow> FFin False q (int k - int sh))"

text \<open>Conversion between formats, and from an integer.\<close>

definition fcast :: "nat \<Rightarrow> fval \<Rightarrow> fval" where
  "fcast p f = (case f of FFin s m e \<Rightarrow> fround p s m e | _ \<Rightarrow> f)"

definition fof_int :: "nat \<Rightarrow> int \<Rightarrow> fval" where
  "fof_int p i = fround p (i < 0) (nat \<bar>i\<bar>) 0"

text \<open>The signed mantissa of a finite value at the exponent \<open>e0\<close>, which is at most its own.\<close>

fun fsmant :: "fval \<Rightarrow> int \<Rightarrow> int" where
  "fsmant (FFin s m e) e0 = (if s then - 1 else 1) * int m * 2 ^ nat (e - e0)"
| "fsmant _ e0 = 0"

fun fexpo :: "fval \<Rightarrow> int" where
  "fexpo (FFin s m e) = e"
| "fexpo _ = 0"

fun signbit :: "fval \<Rightarrow> bool" where
  "signbit (FFin s m e) = s"
| "signbit (FInf s) = s"
| "signbit FNaN = False"

fun isfinite :: "fval \<Rightarrow> bool" where
  "isfinite (FFin s m e) = True"
| "isfinite _ = False"

fun isnan :: "fval \<Rightarrow> bool" where
  "isnan FNaN = True"
| "isnan _ = False"

text \<open>
  \<open>isinf\<close> in its sign-returning form (\<open>-1\<close> for the negative infinity, \<open>1\<close> for the
  positive one), which the comparison \<open>isinf(f) == -1\<close> of the source relies on.
\<close>

fun isinf :: "fval \<Rightarrow> int" where
  "isinf (FInf s) = (if s then - 1 else 1)"
| "isinf _ = 0"

fun fabs :: "fval \<Rightarrow> fval" where
  "fabs (FFin s m e) = FFin False m e"
| "fabs (FInf s) = FInf False"
| "fabs FNaN = FNaN"

fun fneg :: "fval \<Rightarrow> fval" where
  "fneg (FFin s m e) = FFin (\<not> s) m e"
| "fneg (FInf s) = FInf (\<not> s)"
| "fneg FNaN = FNaN"

text \<open>The comparison \<open>a < b\<close>; it is false when an operand is NaN.\<close>

fun fless :: "fval \<Rightarrow> fval \<Rightarrow> bool" where
  "fless FNaN b = False"
| "fless a FNaN = False"
| "fless (FInf sa) (FInf sb) = (sa \<and> \<not> sb)"
| "fless (FInf sa) (FFin s m e) = sa"
| "fless (FFin s m e) (FInf sb) = (\<not> sb)"
| "fless (FFin s1 m1 e1) (FFin s2 m2 e2) =
     (fsmant (FFin s1 m1 e1) (min e1 e2) < fsmant (FFin s2 m2 e2) (min e1 e2))"

text \<open>
  Sum and product of finite values (the renderer handles the other values before it
  computes).  An exact zero sum is positive unless both operands are negative zeros.
\<close>

definition fadd :: "nat \<Rightarrow> fval \<Rightarrow> fval \<Rightarrow> fval" where
  "fadd p a b =
     (if isfinite a \<and> isfinite b then
        (let e0 = min (fexpo a) (fexpo b);
             z = fsmant a e0 + fsmant b e0
         in if z = 0 then FFin (signbit a \<and> signbit b) 0 0
            else fround p (z < 0) (nat \<bar>z\<bar>) e0)
      else FNaN)"

definition fsub :: "nat \<Rightarrow> fval \<Rightarrow> fval \<Rightarrow> fval" where
  "fsub p a b = fadd p a (fneg b)"

fun fmul :: "nat \<Rightarrow> fval \<Rightarrow> fval \<Rightarrow> fval" where
  "fmul p (FFin s1 m1 e1) (FFin s2 m2 e2) = fround p (s1 \<noteq> s2) (m1 * m2) (e1 + e2)"
| "fmul p _ _ = FNaN"

text \<open>Conversion to an integer type truncates towards zero.\<close>

fun ftrunc :: "fval \<Rightarrow> int" where
  "ftrunc (FFin s m e) =
     (if s then - 1 else 1) * (if e \<ge> 0 then int m * 2 ^ nat e else int m div 2 ^ nat (- e))"
| "ftrunc _ = 0"

section \<open>The mathematical library\<close>

text \<open>
  An exact library, for the reference platform.  \<open>ilog10 x\<close> is \<open>(int) log10l(x)\<close> for a
  finite \<open>x > 0\<close> with the logarithm computed exactly and truncated towards zero:
  for \<open>x \<ge> 1\<close> it is the largest \<open>k\<close> with \<open>10^k \<le> x\<close>, searched downwards from a bound;
  for \<open>x < 1\<close> it is \<open>-j\<close> for the largest \<open>j\<close> with \<open>10^j * x \<le> 1\<close>.
\<close>

fun search_down :: "(nat \<Rightarrow> bool) \<Rightarrow> nat \<Rightarrow> nat" where
  "search_down P 0 = 0"
| "search_down P (Suc k) = (if P (Suc k) then Suc k else search_down P k)"

definition ilog10 :: "fval \<Rightarrow> int" where
  "ilog10 x =
     (case x of
        FFin s m e \<Rightarrow>
          if fless x (FFin False 1 0)
          then - int (search_down (\<lambda>j. \<not> fless (FFin False 1 0) (FFin False (m * 10 ^ j) e))
                        (nat (- e)))
          else int (search_down (\<lambda>k. \<not> fless x (FFin False (10 ^ k) 0))
                      (bitlen m + nat e))
      | _ \<Rightarrow> 0)"

text \<open>
  \<open>fpow10 p k\<close> is \<open>powl(10, k)\<close> for an integer \<open>k\<close> as a correctly rounding library
  returns it: the value with \<open>p\<close> mantissa bits nearest to \<open>10^k\<close>.  A library need not
  round correctly (the result of \<open>powl\<close> may differ from this one in the last place), so
  the renderer does not call \<open>ilog10\<close> and \<open>fpow10\<close> but the functions of its platform.
\<close>

definition fpow10 :: "nat \<Rightarrow> int \<Rightarrow> fval" where
  "fpow10 p k = (if k \<ge> 0 then fconst p (10 ^ nat k) 1 else fconst p 1 (10 ^ nat (- k)))"

text \<open>
  The reference platform: LP64 with the x87 extended \<open>long double\<close>, the exact library,
  and a build that keeps \<open>tmp\<close> in place.
\<close>

definition lp64 :: platform where
  "lp64 = \<lparr> int_size = ZS32, long64 = True, flt_mant = 24, dbl_mant = 53, ldbl_mant = 64,
            size_length = Some length_long, ptrdiff_length = Some length_long,
            lib_log10 = (\<lambda>p. ilog10), lib_pow10 = fpow10, tmp_kept = True \<rparr>"

section \<open>Float renderer\<close>

text \<open>
  \<open>zftoaf\<close> and \<open>zftoal\<close> have the same text up to the floating-point type and the
  width of the exponent (2 and 3).  \<open>zftoa_fin\<close> is their common body for a finite
  value, cut into its four stages: \<open>p\<close> is the mantissa width of the working type and
  \<open>expw\<close> the exponent width.
  The constants of the source (\<open>0.5e-2\<close>, \<open>1e2\<close>, \<open>10.0\<close>, \<open>0.1\<close>) are \<open>double\<close> constants
  converted to the working type; \<open>INT32_MAX - 1\<close> and \<open>UINT16_MAX\<close> are integers converted
  to it.  The result is the text in \<open>buf\<close> up to the terminating NUL, which includes the
  exponent that the final \<open>zitoa\<close> call stores behind the returned pointer.
\<close>

definition dconst :: "platform \<Rightarrow> nat \<Rightarrow> nat \<Rightarrow> nat \<Rightarrow> fval" where
  "dconst pf p num den = fcast p (fconst (dbl_mant pf) num den)"

text \<open>
  \<open>if (flags.exp == exp_none && fabsl(f) > (INT32_MAX - 1)) { flags.exp = exp_e; }\<close>
\<close>

definition force_exp :: "nat \<Rightarrow> fval \<Rightarrow> fmt_flags_t \<Rightarrow> fmt_flags_t" where
  "force_exp p f flags =
     (if exp flags = exp_none \<and> fless (fof_int p 2147483646) (fabs f)
      then flags\<lparr>exp := exp_e\<rparr> else flags)"

text \<open>
  The exponent block: the scaled value and the exponent, from the \<open>log10\<close> and \<open>pow\<close> of
  the platform's library.
\<close>

definition normalise :: "platform \<Rightarrow> nat \<Rightarrow> fval \<Rightarrow> fmt_flags_t \<Rightarrow> fval \<times> int" where
  "normalise pf p f flags =
     (if exp flags \<noteq> exp_none then
        (if fless (FFin False 0 0) (fabs f) then
           (let exponent = lib_log10 pf p (fabs f);
                f1 = fmul p f (lib_pow10 pf p (- exponent))
            in if ftrunc f1 = 0 then (fmul p f1 (dconst pf p 10 1), exponent - 1)
               else (f1, exponent))
         else (f, 0))
      else (f, 0))"

text \<open>
  The \<open>switch\<close> on the precision, the rounding and the carry correction: the clamped
  precision is passed in; the result is \<open>rounded\<close>, \<open>whole\<close> and the exponent.
\<close>

definition round_whole ::
  "platform \<Rightarrow> nat \<Rightarrow> fval \<Rightarrow> int \<Rightarrow> nat \<Rightarrow> fmt_flags_t \<Rightarrow> fval \<times> int \<times> int" where
  "round_whole pf p f exponent precision flags =
     (let frnd = dconst pf p 5 (10 ^ (precision + 1));
          rounded = (if fless f (FFin False 0 0) then fsub p f frnd else fadd p f frnd);
          whole = ftrunc rounded
      in if exp flags \<noteq> exp_none \<and> whole \<ge> 10
         then (fmul p rounded (dconst pf p 1 10), ftrunc (fmul p rounded (dconst pf p 1 10)),
               exponent + 1)
         else (rounded, whole, exponent))"

text \<open>The part that stores characters, from the test for the negative zero onwards.\<close>

definition emit_float ::
  "platform \<Rightarrow> nat \<Rightarrow> nat \<Rightarrow> fval \<Rightarrow> fval \<Rightarrow> int \<Rightarrow> int \<Rightarrow> nat \<Rightarrow> nat \<Rightarrow> fmt_flags_t
     \<Rightarrow> string" where
  "emit_float pf p expw f rounded whole exponent width precision flags1 =
    (let negzero = (whole = 0 \<and> signbit f);
         flags = (if negzero then flags1\<lparr>sign := auto_sign\<rparr> else flags1);
         fraction = fabs (fmul p (dconst pf p (10 ^ precision) 1)
                                 (fsub p rounded (fof_int p whole)));
         fraction_flags = flags0\<lparr>zeropad := True\<rparr>;
         exponent_flags = flags0\<lparr>sign := always_sign, zeropad := True\<rparr>
     in (if negzero then ''-'' else [])
        @ (if whole > 32767 \<or> width > 4 then zltoa pf whole width flags
           else zitoa pf whole width flags)
        @ (if precision \<noteq> 0 \<or> exp flags \<noteq> exp_none then ''.'' else [])
        @ (if precision \<noteq> 0 then
             (if fless (fof_int p 65535) fraction \<or> precision > 4
              then zultoa pf (ftrunc fraction) precision fraction_flags
              else zutoa pf (ftrunc fraction) precision fraction_flags)
           else [])
        @ (if exp flags = exp_e then ''e'' @ zitoa pf exponent expw exponent_flags
           else if exp flags = exp_E then ''E'' @ zitoa pf exponent expw exponent_flags
           else []))"

definition zftoa_fin ::
  "platform \<Rightarrow> nat \<Rightarrow> nat \<Rightarrow> fval \<Rightarrow> nat \<Rightarrow> nat \<Rightarrow> fmt_flags_t \<Rightarrow> string" where
  "zftoa_fin pf p expw f0 width precision0 flags =
    (case normalise pf p f0 (force_exp p f0 flags) of
       (f, exponent) \<Rightarrow>
         (case round_whole pf p f exponent (if precision0 \<le> 8 then precision0 else 9)
                 (force_exp p f0 flags) of
            (rounded, whole, exponent') \<Rightarrow>
              emit_float pf p expw f rounded whole exponent' width
                (if precision0 \<le> 8 then precision0 else 9) (force_exp p f0 flags)))"

text \<open>The tests on the special values, which come first in both renderers.\<close>

definition zftoa_gen ::
  "platform \<Rightarrow> nat \<Rightarrow> nat \<Rightarrow> fval \<Rightarrow> nat \<Rightarrow> nat \<Rightarrow> fmt_flags_t \<Rightarrow> string" where
  "zftoa_gen pf p expw f width precision flags =
    (if \<not> isfinite f then
       (if isnan f then ''NAN''
        else if isinf f = - 1 then ''-INF''
        else ''INF'')
     else zftoa_fin pf p expw f width precision flags)"

definition zftoaf :: "platform \<Rightarrow> fval \<Rightarrow> nat \<Rightarrow> nat \<Rightarrow> fmt_flags_t \<Rightarrow> string" where
  "zftoaf pf f width precision flags =
     zftoa_gen pf (flt_mant pf) 2 (fcast (flt_mant pf) f) width precision flags"

definition zftoal :: "platform \<Rightarrow> fval \<Rightarrow> nat \<Rightarrow> nat \<Rightarrow> fmt_flags_t \<Rightarrow> string" where
  "zftoal pf f width precision flags =
     zftoa_gen pf (ldbl_mant pf) 3 (fcast (ldbl_mant pf) f) width precision flags"

text \<open>\<open>zftoa\<close> is \<open>zftoaf\<close> where \<open>double\<close> has the mantissa of \<open>float\<close>, else \<open>zftoal\<close>.\<close>

definition zftoa :: "platform \<Rightarrow> fval \<Rightarrow> nat \<Rightarrow> nat \<Rightarrow> fmt_flags_t \<Rightarrow> string" where
  "zftoa pf f width precision flags =
     (if dbl_mant pf = flt_mant pf then zftoaf pf f width precision flags
      else zftoal pf f width precision flags)"

section \<open>String functions of the C library\<close>

text \<open>
  A C string is modelled by the list of its characters before the terminating NUL, and a
  pointer into it by the suffix that starts there.  \<open>strchr\<close> and \<open>strpbrk\<close> return the
  suffix at the first match, \<open>None\<close> for the null pointer.
\<close>

definition NUL :: char where
  "NUL = char_of (0 :: nat)"

definition cstr :: "string \<Rightarrow> string" where
  "cstr s = takeWhile (\<lambda>c. c \<noteq> NUL) s"

definition strchr :: "string \<Rightarrow> char \<Rightarrow> string option" where
  "strchr s c = (case dropWhile (\<lambda>x. x \<noteq> c) s of [] \<Rightarrow> None | r # rs \<Rightarrow> Some (r # rs))"

definition strpbrk :: "string \<Rightarrow> string \<Rightarrow> string option" where
  "strpbrk s accept =
     (case dropWhile (\<lambda>x. x \<notin> set accept) s of [] \<Rightarrow> None | r # rs \<Rightarrow> Some (r # rs))"

fun strstr :: "string \<Rightarrow> string \<Rightarrow> string option" where
  "strstr [] pat = (if pat = [] then Some [] else None)"
| "strstr (c # cs) pat =
     (if take (length pat) (c # cs) = pat then Some (c # cs) else strstr cs pat)"

definition isspace :: "char \<Rightarrow> bool" where
  "isspace c = (c = CHR '' '' \<or> (9 \<le> (of_char c :: nat) \<and> (of_char c :: nat) \<le> 13))"

definition isdigit :: "char \<Rightarrow> bool" where
  "isdigit c = (of_char CHR ''0'' \<le> (of_char c :: nat) \<and> (of_char c :: nat) \<le> of_char CHR ''9'')"

definition int_bits :: "platform \<Rightarrow> nat" where
  "int_bits pf = (case int_size pf of ZS16 \<Rightarrow> 16 | ZS32 \<Rightarrow> 32 | ZS64 \<Rightarrow> 64)"

definition long_bits :: "platform \<Rightarrow> nat" where
  "long_bits pf = (if long64 pf then 64 else 32)"

text \<open>
  \<open>strtol(s, &end, 10)\<close>: white space, an optional sign, decimal digits.  Without a digit
  the value is 0 and \<open>end\<close> is \<open>s\<close>; a value outside \<open>long\<close> is clamped.  The result is
  the value and \<open>end\<close>.
\<close>

definition strtol :: "platform \<Rightarrow> string \<Rightarrow> int \<times> string" where
  "strtol pf s =
     (let s1 = dropWhile isspace s;
          neg = (s1 \<noteq> [] \<and> hd s1 = CHR ''-'');
          s2 = (if s1 \<noteq> [] \<and> (hd s1 = CHR ''-'' \<or> hd s1 = CHR ''+'') then tl s1 else s1);
          ds = takeWhile isdigit s2;
          v = foldl (\<lambda>acc c. acc * 10 + (of_char c - of_char CHR ''0'')) (0 :: int) ds;
          sv = (if neg then - v else v)
      in if ds = [] then (0, s)
         else (max (- (2 ^ (long_bits pf - 1))) (min (2 ^ (long_bits pf - 1) - 1) sv),
               dropWhile isdigit s2))"

text \<open>
  An \<open>int\<close> or \<open>long\<close> value stored in an \<open>unsigned\<close> variable keeps its low bits.
  \<open>ARG_SPECIFIED\<close> is \<open>-2\<close> and \<open>PRECISION_UNSPECIFIED\<close> is \<open>-1\<close>; the source compares
  them with \<open>unsigned\<close> variables, that is with their unsigned conversions.
\<close>

definition to_unsigned :: "platform \<Rightarrow> int \<Rightarrow> nat" where
  "to_unsigned pf v = nat (v mod 2 ^ int_bits pf)"

definition ARG_SPECIFIED :: "platform \<Rightarrow> nat" where
  "ARG_SPECIFIED pf = to_unsigned pf (- 2)"

definition PRECISION_UNSPECIFIED :: "platform \<Rightarrow> nat" where
  "PRECISION_UNSPECIFIED pf = to_unsigned pf (- 1)"

definition DEFAULT_PRECISION :: nat where
  "DEFAULT_PRECISION = 4"

section \<open>Subspec parser\<close>

text \<open>
  The body of the \<open>while\<close> loop of \<open>getFlags\<close> for the flag character found.
\<close>

definition apply_flag :: "char \<Rightarrow> fmt_flags_t \<Rightarrow> fmt_flags_t" where
  "apply_flag c flags =
     (if c = CHR ''-'' then flags\<lparr>leftAlign := True\<rparr>
      else if c = CHR ''+'' then flags\<lparr>sign := always_sign\<rparr>
      else if c = CHR '' '' \<and> sign flags \<noteq> always_sign then flags\<lparr>sign := sign_or_space\<rparr>
      else if c = CHR ''#'' then flags\<lparr>altForm := True\<rparr>
      else if c = CHR ''0'' then flags\<lparr>zeropad := True\<rparr>
      else flags)"

text \<open>
  The loop \<open>while ((flag = strpbrk(subspec, "0-+ #"))) { ...; ++subspec; }\<close> on the capped
  flag string: every round handles the first flag character at or behind \<open>subspec\<close> and
  advances \<open>subspec\<close> by one.  The result is the flags and the number of rounds.
\<close>

fun flags_loop :: "string \<Rightarrow> fmt_flags_t \<Rightarrow> nat \<Rightarrow> fmt_flags_t \<times> nat" where
  "flags_loop [] flags k = (flags, k)"
| "flags_loop (c # cs) flags k =
     (case strpbrk (c # cs) ''0-+ #'' of
        None \<Rightarrow> (flags, k)
      | Some flag \<Rightarrow> flags_loop cs (apply_flag (hd flag) flags) (Suc k))"

text \<open>
  \<open>getFlags\<close>: the flag string is capped at the first of \<open>.123456789\<close> (\<open>cap_flags\<close>
  is the capped string); the result is the flags and \<open>*endptr\<close>.
\<close>

definition cap_flags :: "string \<Rightarrow> string" where
  "cap_flags subspec =
     (case strpbrk subspec ''.123456789'' of
        None \<Rightarrow> subspec
      | Some end_of_flags \<Rightarrow> take (length subspec - length end_of_flags) subspec)"

definition getFlags :: "string \<Rightarrow> fmt_flags_t \<times> string" where
  "getFlags subspec =
     (let (flags, k) = flags_loop (cap_flags subspec) flags0 0
      in (flags, drop k subspec))"

text \<open>\<open>getWidth\<close> and \<open>getPrecision\<close>: the value as stored in the \<open>unsigned\<close> variable, and \<open>*endptr\<close>.\<close>

definition getWidth :: "platform \<Rightarrow> string \<Rightarrow> nat \<times> string" where
  "getWidth pf subspec =
     (if subspec \<noteq> [] \<and> hd subspec = CHR ''*'' then (ARG_SPECIFIED pf, tl subspec)
      else (case strtol pf subspec of (v, e) \<Rightarrow> (to_unsigned pf v, e)))"

definition getPrecision :: "platform \<Rightarrow> string \<Rightarrow> nat \<times> string" where
  "getPrecision pf subspec =
     (case strchr subspec CHR ''.'' of
        None \<Rightarrow> (PRECISION_UNSPECIFIED pf, subspec)
      | Some delimiter \<Rightarrow>
          (let precstr = tl delimiter in
           if precstr \<noteq> [] \<and> hd precstr = CHR ''*'' then (ARG_SPECIFIED pf, tl subspec)
           else (case strtol pf precstr of
                   (precval, e) \<Rightarrow>
                     if length e = length precstr then (PRECISION_UNSPECIFIED pf, e)
                     else (to_unsigned pf precval, e))))"

definition getLength :: "platform \<Rightarrow> string \<Rightarrow> length_t" where
  "getLength pf subspec =
     (if strstr subspec ''ll'' \<noteq> None then length_long_long
      else if strchr subspec CHR ''l'' \<noteq> None then length_long
      else if strchr subspec CHR ''L'' \<noteq> None then length_long
      else if strstr subspec ''j'' \<noteq> None then length_long_long
      else if strstr subspec ''hh'' \<noteq> None then length_int
      else if strstr subspec ''h'' \<noteq> None then length_int
      else if size_length pf \<noteq> None \<and> strstr subspec ''z'' \<noteq> None then the (size_length pf)
      else if ptrdiff_length pf \<noteq> None \<and> strstr subspec ''t'' \<noteq> None
           then the (ptrdiff_length pf)
      else length_int)"

text \<open>
  \<open>getSubspec\<close> copies the text between the introducer and the conversion letter,
  at most \<open>maxlen - 1\<close> characters.
\<close>

definition getSubspec :: "nat \<Rightarrow> string \<Rightarrow> string" where
  "getSubspec maxlen between =
     (let len = length between;
          len' = (if len \<ge> maxlen then maxlen - 1 else len)
      in take len' between)"

section \<open>Arguments\<close>

text \<open>
  The argument source is the list of the remaining arguments, each with the type it was
  passed with.  \<open>va_arg\<close> with a type that does not match the next argument, or without
  a next argument, is undefined behaviour; so are a store outside \<open>tmp\<close> and a read
  through an invalid pointer.  The model returns these as errors; \<open>WildRead\<close> carries the
  values written through \<open>int\<close> pointers up to then.
\<close>

datatype arg =
    AInt int | ALong int | ALongLong int | ADouble fval | ALongDouble fval
  | APtr nat | AStr string | AIntPtr nat

datatype error = BadVaArg | TmpOverflow | DeadTmpRead | WildRead "(nat \<times> int) list"

definition bind :: "error + 'a \<Rightarrow> ('a \<Rightarrow> error + 'b) \<Rightarrow> error + 'b" where
  "bind m f = (case m of Inl e \<Rightarrow> Inl e | Inr x \<Rightarrow> f x)"

fun va_int :: "arg list \<Rightarrow> error + (int \<times> arg list)" where
  "va_int (AInt v # ap) = Inr (v, ap)"
| "va_int _ = Inl BadVaArg"

fun va_long :: "arg list \<Rightarrow> error + (int \<times> arg list)" where
  "va_long (ALong v # ap) = Inr (v, ap)"
| "va_long _ = Inl BadVaArg"

fun va_long_long :: "arg list \<Rightarrow> error + (int \<times> arg list)" where
  "va_long_long (ALongLong v # ap) = Inr (v, ap)"
| "va_long_long _ = Inl BadVaArg"

fun va_double :: "arg list \<Rightarrow> error + (fval \<times> arg list)" where
  "va_double (ADouble v # ap) = Inr (v, ap)"
| "va_double _ = Inl BadVaArg"

fun va_long_double :: "arg list \<Rightarrow> error + (fval \<times> arg list)" where
  "va_long_double (ALongDouble v # ap) = Inr (v, ap)"
| "va_long_double _ = Inl BadVaArg"

fun va_ptr :: "arg list \<Rightarrow> error + (nat \<times> arg list)" where
  "va_ptr (APtr v # ap) = Inr (v, ap)"
| "va_ptr _ = Inl BadVaArg"

fun va_str :: "arg list \<Rightarrow> error + (string \<times> arg list)" where
  "va_str (AStr v # ap) = Inr (v, ap)"
| "va_str _ = Inl BadVaArg"

fun va_int_ptr :: "arg list \<Rightarrow> error + (nat \<times> arg list)" where
  "va_int_ptr (AIntPtr v # ap) = Inr (v, ap)"
| "va_int_ptr _ = Inl BadVaArg"

section \<open>Directives\<close>

text \<open>
  A token rendered into \<open>tmp\<close>, whose size is that of \<open>-2147483648.-2147483648\<close> with
  its NUL, 24 bytes: a longer text is stored outside the array.  \<open>tmp\<close> is declared in
  the block of \<open>if (spec)\<close>, and \<open>tok = tmp\<close> is read by \<open>strlen\<close> and \<open>ZCOAP_MEMCPY\<close>
  behind that block, when the lifetime of \<open>tmp\<close> has ended.  The C standard gives this
  read no meaning; it delivers the rendered text only where the build has left the bytes
  of \<open>tmp\<close> in place, and the model goes on only there.
\<close>

definition in_tmp :: "platform \<Rightarrow> string \<times> arg list \<Rightarrow> error + (string \<times> arg list)" where
  "in_tmp pf r =
     (if length (fst r) < 24
      then (if tmp_kept pf then Inr r else Inl DeadTmpRead)
      else Inl TmpOverflow)"

text \<open>
  The integer conversions.  The argument is fetched as \<open>int\<close>, \<open>long\<close> or \<open>long long\<close>
  and stored in an unsigned variable of the same width.  The variable \<open>length\<close> of the
  source is \<open>lclass\<close> here.
\<close>

definition render_int ::
  "platform \<Rightarrow> char \<Rightarrow> int_size_t \<Rightarrow> (int \<Rightarrow> nat \<Rightarrow> fmt_flags_t \<Rightarrow> string)
     \<Rightarrow> (int \<Rightarrow> nat \<Rightarrow> fmt_flags_t \<Rightarrow> string) \<Rightarrow> int \<Rightarrow> nat \<Rightarrow> fmt_flags_t \<Rightarrow> string" where
  "render_int pf spec sz signed_r unsigned_r val width flags =
     (if spec = CHR ''d'' \<or> spec = CHR ''i'' then signed_r val width flags
      else if spec = CHR ''u'' then unsigned_r val width flags
      else if spec = CHR ''x'' then zx64toa sz (word_of_int val) width flags False
      else if spec = CHR ''X'' then zx64toa sz (word_of_int val) width flags True
      else if spec = CHR ''o'' then zo64toa sz (word_of_int val) width flags
      else [])"

definition int_conv ::
  "platform \<Rightarrow> char \<Rightarrow> fmt_flags_t \<Rightarrow> nat \<Rightarrow> length_t \<Rightarrow> arg list
     \<Rightarrow> error + (string \<times> arg list)" where
  "int_conv pf spec flags width lclass ap =
     (case lclass of
        length_int \<Rightarrow>
          bind (va_int ap) (\<lambda>(v, ap').
            Inr (render_int pf spec (int_size pf) (zitoa pf) (zutoa pf)
                   (v mod 2 ^ int_bits pf) width flags, ap'))
      | length_long \<Rightarrow>
          bind (va_long ap) (\<lambda>(v, ap').
            Inr (render_int pf spec (if long64 pf then ZS64 else ZS32) (zltoa pf) (zultoa pf)
                   (v mod 2 ^ long_bits pf) width flags, ap'))
      | length_long_long \<Rightarrow>
          bind (va_long_long ap) (\<lambda>(v, ap').
            Inr (render_int pf spec ZS64 (\<lambda>x. zi64toa (word_of_int x))
                   (\<lambda>x. zu64toa (word_of_int x)) (v mod 2 ^ 64) width flags, ap')))"

text \<open>
  The floating-point conversions: the exponent form is chosen from the conversion letter,
  for \<open>g\<close> and \<open>G\<close> from the window between \<open>GMINF\<close> (0.0001) and \<open>GMAXF\<close> (999999.9).
\<close>

definition float_exp :: "platform \<Rightarrow> char \<Rightarrow> fval \<Rightarrow> fmt_flags_t \<Rightarrow> fmt_flags_t" where
  "float_exp pf spec val flags =
     (if spec = CHR ''e'' \<or> spec = CHR ''a'' then flags\<lparr>exp := exp_e\<rparr>
      else if spec = CHR ''E'' \<or> spec = CHR ''A'' then flags\<lparr>exp := exp_E\<rparr>
      else if spec = CHR ''g'' \<or> spec = CHR ''G'' then
        (if fless (fabs val) (fconst (dbl_mant pf) 1 10000)
            \<or> fless (fconst (dbl_mant pf) 9999999 10) (fabs val)
         then (if spec = CHR ''g'' then flags\<lparr>exp := exp_e\<rparr> else flags\<lparr>exp := exp_E\<rparr>)
         else flags)
      else flags)"

definition float_conv ::
  "platform \<Rightarrow> char \<Rightarrow> fmt_flags_t \<Rightarrow> nat \<Rightarrow> nat \<Rightarrow> length_t \<Rightarrow> arg list
     \<Rightarrow> error + (string \<times> arg list)" where
  "float_conv pf spec flags width precision lclass ap =
     (let prec = (if precision = PRECISION_UNSPECIFIED pf then DEFAULT_PRECISION else precision)
      in if lclass = length_long
         then bind (va_long_double ap) (\<lambda>(val, ap').
                Inr (zftoal pf val width prec (float_exp pf spec val flags), ap'))
         else bind (va_double ap) (\<lambda>(val, ap').
                Inr (zftoa pf val width prec (float_exp pf spec val flags), ap')))"

text \<open>
  The chain of tests on \<open>*spec\<close>: the token and the remaining arguments.  Every letter of
  the whitelist is handled by one branch; in the last case \<open>tok\<close> stays null and nothing
  is copied.  The token is \<open>tmp\<close> for every conversion but \<open>%\<close> (a string literal) and
  \<open>s\<close> (the caller's string).
\<close>

definition convert ::
  "platform \<Rightarrow> char \<Rightarrow> fmt_flags_t \<Rightarrow> nat \<Rightarrow> nat \<Rightarrow> length_t \<Rightarrow> arg list
     \<Rightarrow> error + (string \<times> arg list)" where
  "convert pf spec flags width precision lclass ap =
     (if spec = CHR ''%'' then Inr (''%'', ap)
      else if spec \<in> set ''diuxXo''
        then bind (int_conv pf spec flags width lclass ap) (in_tmp pf)
      else if spec \<in> set ''fFeEgGaA''
        then bind (float_conv pf spec flags width precision lclass ap) (in_tmp pf)
      else if spec = CHR ''p''
        then bind (va_ptr ap) (\<lambda>(v, ap').
               in_tmp pf (zx64toa ZS64 (word_of_int (int v)) width flags False, ap'))
      else if spec = CHR ''s'' then bind (va_str ap) (\<lambda>(v, ap'). Inr (cstr v, ap'))
      else if spec = CHR ''c''
        then bind (va_int ap) (\<lambda>(v, ap'). in_tmp pf (cstr [char_of v], ap'))
      else Inr ([], ap))"

text \<open>
  The directive with the subspec text \<open>subspec\<close> and the conversion letter \<open>spec\<close>:
  flags, width, precision and length are parsed in this order, a width or precision
  given as \<open>*\<close> is fetched from the arguments.
\<close>

definition directive ::
  "platform \<Rightarrow> string \<Rightarrow> char \<Rightarrow> arg list \<Rightarrow> error + (string \<times> arg list)" where
  "directive pf subspec spec ap =
     (case getFlags subspec of (flags, e1) \<Rightarrow>
      case getWidth pf e1 of (w0, e2) \<Rightarrow>
        bind (if w0 = ARG_SPECIFIED pf
              then bind (va_int ap) (\<lambda>(v, ap'). Inr (to_unsigned pf v, ap'))
              else Inr (w0, ap))
          (\<lambda>(width, ap1).
             case getPrecision pf e2 of (p0, e3) \<Rightarrow>
               bind (if p0 = ARG_SPECIFIED pf
                     then bind (va_int ap1) (\<lambda>(v, ap'). Inr (to_unsigned pf v, ap'))
                     else Inr (p0, ap1))
                 (\<lambda>(precision, ap2).
                    convert pf spec flags width precision (getLength pf e3) ap2)))"

section \<open>Output assembler and directive scanner\<close>

text \<open>
  The state of one call: the remaining capacity, the logical length, the write cursor as
  an offset from \<open>buf\<close>, the memory at \<open>buf\<close> (a function from offsets to characters),
  the remaining arguments and the values written through \<open>int\<close> pointers.
\<close>

record zstate =
  remain :: nat
  len :: nat
  dest :: nat
  mem :: "nat \<Rightarrow> char"
  ap :: "arg list"
  ints :: "(nat \<times> int) list"

text \<open>
  Modelled from the spec: \<open>ZCOAP_MEMCPY\<close> is a macro of \<open>config.h\<close>, which is not among
  the sources.  Following the specification of the Output Assembler it copies the given
  characters to the destination, as \<open>memcpy\<close> does.
\<close>

definition ZCOAP_MEMCPY :: "(nat \<Rightarrow> char) \<Rightarrow> nat \<Rightarrow> string \<Rightarrow> (nat \<Rightarrow> char)" where
  "ZCOAP_MEMCPY m d s = (\<lambda>i. if d \<le> i \<and> i < d + length s then s ! (i - d) else m i)"

text \<open>
  The copy of a literal span (\<open>if (toklen >= remain) toklen = remain;\<close>) and of a token
  (\<open>if (toklen > remain) toklen = remain;\<close>).
\<close>

definition put_span :: "string \<Rightarrow> zstate \<Rightarrow> zstate" where
  "put_span tok st =
     (let toklen = length tok;
          toklen' = (if toklen \<ge> remain st then remain st else toklen)
      in st\<lparr>len := len st + toklen, remain := remain st - toklen',
             mem := ZCOAP_MEMCPY (mem st) (dest st) (take toklen' tok),
             dest := dest st + toklen'\<rparr>)"

definition put_tok :: "string \<Rightarrow> zstate \<Rightarrow> zstate" where
  "put_tok tok st =
     (let toklen = length tok;
          toklen' = (if toklen > remain st then remain st else toklen)
      in st\<lparr>len := len st + toklen, remain := remain st - toklen',
             mem := ZCOAP_MEMCPY (mem st) (dest st) (take toklen' tok),
             dest := dest st + toklen'\<rparr>)"

definition spec_chars :: string where
  "spec_chars = ''duxXfFeEgGs%iocpaA''"

text \<open>The value \<open>n - remain\<close> stored in an \<open>int\<close>.\<close>

definition to_int :: "platform \<Rightarrow> nat \<Rightarrow> int" where
  "to_int pf v =
     (let m = int v mod 2 ^ int_bits pf
      in if m \<ge> 2 ^ (int_bits pf - 1) then m - 2 ^ int_bits pf else m)"

text \<open>
  The \<open>while\<close> loop of \<open>zvsnprintf\<close>; \<open>src\<close> is the rest of the format string.  The result
  is \<open>src\<close> and the state at the exit of the loop.  In the branch for \<open>n\<close> the pointer
  \<open>spec\<close> is null: \<open>src\<close> becomes \<open>spec + 1\<close>, the count is written through the next
  argument, and the loop condition then calls \<open>strchr\<close> on that address.
\<close>

function zloop :: "platform \<Rightarrow> nat \<Rightarrow> string \<Rightarrow> zstate \<Rightarrow> error + (string \<times> zstate)" where
  "zloop pf n src st =
     (case strchr src CHR ''%'' of
        None \<Rightarrow> Inr (src, st)
      | Some escape \<Rightarrow>
          (case strpbrk (tl escape) spec_chars of
             Some spec \<Rightarrow>
               (case directive pf
                       (getSubspec 31 (take (length (tl escape) - length spec) (tl escape)))
                       (hd spec) (ap (put_span (take (length src - length escape) src) st)) of
                  Inl e \<Rightarrow> Inl e
                | Inr (tok, ap') \<Rightarrow>
                    zloop pf n (tl spec)
                      (put_tok tok
                         ((put_span (take (length src - length escape) src) st)\<lparr>ap := ap'\<rparr>)))
           | None \<Rightarrow>
               if strchr (tl escape) CHR ''n'' \<noteq> None
               then (case va_int_ptr (ap (put_span (take (length src - length escape) src) st)) of
                       Inl e \<Rightarrow> Inl e
                     | Inr (p, ap') \<Rightarrow>
                         Inl (WildRead
                           ((p, to_int pf
                                  (n - remain (put_span (take (length src - length escape) src) st)))
                            # ints (put_span (take (length src - length escape) src) st))))
               else zloop pf n (tl escape)
                      (put_span (take (length src - length escape) src) st)))"
  by pat_completeness auto
termination
proof (relation "measure (\<lambda>(pf, n, src, st). length src)")
  show "wf (measure (\<lambda>(pf, n, src, st). length src))" by simp
next
  fix pf :: platform and n :: nat and src :: string and st :: zstate
    and escape spec :: string and x :: "string \<times> arg list" and tok :: string and ap' :: "arg list"
  assume e: "strchr src CHR ''%'' = Some escape"
    and s: "strpbrk (tl escape) spec_chars = Some spec"
  have "escape = dropWhile (\<lambda>x. x \<noteq> CHR ''%'') src"
    using e by (simp add: strchr_def split: list.splits)
  then have "length escape \<le> length src"
    by (simp add: length_dropWhile_le)
  moreover have "escape \<noteq> []" using e by (auto simp: strchr_def split: list.splits)
  moreover have "spec = dropWhile (\<lambda>x. x \<notin> set spec_chars) (tl escape)"
    using s by (simp add: strpbrk_def split: list.splits)
  then have "length spec \<le> length (tl escape)"
    using length_dropWhile_le [of "\<lambda>x. x \<notin> set spec_chars" "tl escape"] by simp
  moreover have "spec \<noteq> []" using s by (auto simp: strpbrk_def split: list.splits)
  ultimately have "length (tl spec) < length src"
    by (cases escape; cases spec) auto
  then show "((pf, n, tl spec,
               put_tok tok ((put_span (take (length src - length escape) src) st)\<lparr>ap := ap'\<rparr>)),
              pf, n, src, st) \<in> measure (\<lambda>(pf, n, src, st). length src)"
    by simp
next
  fix pf :: platform and n :: nat and src :: string and st :: zstate and escape :: string
  assume e: "strchr src CHR ''%'' = Some escape"
  have "escape = dropWhile (\<lambda>x. x \<noteq> CHR ''%'') src"
    using e by (simp add: strchr_def split: list.splits)
  then have "length escape \<le> length src"
    by (simp add: length_dropWhile_le)
  moreover have "escape \<noteq> []" using e by (auto simp: strchr_def split: list.splits)
  ultimately have "length (tl escape) < length src" by (cases escape) auto
  then show "((pf, n, tl escape, put_span (take (length src - length escape) src) st),
              pf, n, src, st) \<in> measure (\<lambda>(pf, n, src, st). length src)"
    by simp
qed

declare zloop.simps [simp del]

text \<open>
  The block behind the loop: the rest of the format is copied and the NUL is stored.  The
  result is the returned length and the memory at \<open>buf\<close>.
\<close>

definition zfinish :: "nat \<Rightarrow> string \<Rightarrow> zstate \<Rightarrow> nat \<times> (nat \<Rightarrow> char)" where
  "zfinish n src st =
     (let st1 = put_span src st
      in (len st1,
          if remain st1 \<noteq> 0 then (mem st1)(dest st1 := NUL)
          else if n \<noteq> 0 then (mem st1)(n - 1 := NUL)
          else mem st1))"

definition zrun :: "platform \<Rightarrow> nat \<Rightarrow> string \<Rightarrow> zstate \<Rightarrow> error + (nat \<times> (nat \<Rightarrow> char))" where
  "zrun pf n src st =
     (case zloop pf n src st of Inl e \<Rightarrow> Inl e | Inr (src', st') \<Rightarrow> Inr (zfinish n src' st'))"

definition zvsnprintf ::
  "platform \<Rightarrow> (nat \<Rightarrow> char) \<Rightarrow> nat \<Rightarrow> string \<Rightarrow> arg list \<Rightarrow> error + (nat \<times> (nat \<Rightarrow> char))" where
  "zvsnprintf pf buf n fmt args =
     zrun pf n (cstr fmt)
       \<lparr>remain = n, len = 0, dest = 0, mem = buf, ap = args, ints = []\<rparr>"

definition zsnprintf ::
  "platform \<Rightarrow> (nat \<Rightarrow> char) \<Rightarrow> nat \<Rightarrow> string \<Rightarrow> arg list \<Rightarrow> error + (nat \<times> (nat \<Rightarrow> char))" where
  "zsnprintf pf buf n fmt args = zvsnprintf pf buf n fmt args"

section \<open>The logical text\<close>

text \<open>
  The text that the scan of a format produces when no capacity limits it: the literal
  spans and the tokens of the directives, in order.  It is \<open>None\<close> where the scan has
  undefined behaviour.  Its length is the logical length of the specification.
\<close>

function ztext :: "platform \<Rightarrow> string \<Rightarrow> arg list \<Rightarrow> string option" where
  "ztext pf src args =
     (case strchr src CHR ''%'' of
        None \<Rightarrow> Some src
      | Some escape \<Rightarrow>
          (case strpbrk (tl escape) spec_chars of
             Some spec \<Rightarrow>
               (case directive pf
                       (getSubspec 31 (take (length (tl escape) - length spec) (tl escape)))
                       (hd spec) args of
                  Inl e \<Rightarrow> None
                | Inr (tok, args') \<Rightarrow>
                    (case ztext pf (tl spec) args' of
                       None \<Rightarrow> None
                     | Some t \<Rightarrow> Some (take (length src - length escape) src @ tok @ t)))
           | None \<Rightarrow>
               if strchr (tl escape) CHR ''n'' \<noteq> None then None
               else (case ztext pf (tl escape) args of
                       None \<Rightarrow> None
                     | Some t \<Rightarrow> Some (take (length src - length escape) src @ t))))"
  by pat_completeness auto
termination
proof (relation "measure (\<lambda>(pf, src, args). length src)")
  show "wf (measure (\<lambda>(pf, src, args). length src))" by simp
next
  fix pf :: platform and src :: string and args :: "arg list"
    and escape spec :: string and x :: "string \<times> arg list" and tok :: string and args' :: "arg list"
  assume e: "strchr src CHR ''%'' = Some escape"
    and s: "strpbrk (tl escape) spec_chars = Some spec"
  have "escape = dropWhile (\<lambda>x. x \<noteq> CHR ''%'') src"
    using e by (simp add: strchr_def split: list.splits)
  then have "length escape \<le> length src"
    by (simp add: length_dropWhile_le)
  moreover have "escape \<noteq> []" using e by (auto simp: strchr_def split: list.splits)
  moreover have "spec = dropWhile (\<lambda>x. x \<notin> set spec_chars) (tl escape)"
    using s by (simp add: strpbrk_def split: list.splits)
  then have "length spec \<le> length (tl escape)"
    using length_dropWhile_le [of "\<lambda>x. x \<notin> set spec_chars" "tl escape"] by simp
  moreover have "spec \<noteq> []" using s by (auto simp: strpbrk_def split: list.splits)
  ultimately have "length (tl spec) < length src"
    by (cases escape; cases spec) auto
  then show "((pf, tl spec, args'), pf, src, args) \<in> measure (\<lambda>(pf, src, args). length src)"
    by simp
next
  fix pf :: platform and src :: string and args :: "arg list" and escape :: string
  assume e: "strchr src CHR ''%'' = Some escape"
  have "escape = dropWhile (\<lambda>x. x \<noteq> CHR ''%'') src"
    using e by (simp add: strchr_def split: list.splits)
  then have "length escape \<le> length src"
    by (simp add: length_dropWhile_le)
  moreover have "escape \<noteq> []" using e by (auto simp: strchr_def split: list.splits)
  ultimately have "length (tl escape) < length src" by (cases escape) auto
  then show "((pf, tl escape, args), pf, src, args) \<in> measure (\<lambda>(pf, src, args). length src)"
    by simp
qed

declare ztext.simps [simp del]

section \<open>Notions used in the statements\<close>

text \<open>
  \<open>assembled n buf t st\<close>: the state \<open>st\<close> is the one reached from the initial state with
  capacity \<open>n\<close> and memory \<open>buf\<close> once the text \<open>t\<close> has been produced.
\<close>

definition assembled :: "nat \<Rightarrow> (nat \<Rightarrow> char) \<Rightarrow> string \<Rightarrow> zstate \<Rightarrow> bool" where
  "assembled n buf t st \<longleftrightarrow>
     len st = length t \<and> remain st = n - length t \<and> dest st = min n (length t) \<and>
     mem st = ZCOAP_MEMCPY buf 0 (take n t)"

text \<open>Two flag sets that differ at most in \<open>leftAlign\<close> and \<open>altForm\<close>.\<close>

definition inert_eq :: "fmt_flags_t \<Rightarrow> fmt_flags_t \<Rightarrow> bool" where
  "inert_eq a b \<longleftrightarrow> sign a = sign b \<and> zeropad a = zeropad b \<and> exp a = exp b"

text \<open>
  A destination memory for concrete runs, and the observation of a result: the returned
  length with the first \<open>k\<close> bytes of the destination.
\<close>

definition blank :: "nat \<Rightarrow> char" where
  "blank = (\<lambda>i. CHR ''?'')"

definition outcome :: "error + (nat \<times> (nat \<Rightarrow> char)) \<Rightarrow> nat \<Rightarrow> (nat \<times> string) option" where
  "outcome r k = (case r of Inl e \<Rightarrow> None | Inr (l, b) \<Rightarrow> Some (l, map b [0..<k]))"

section \<open>The digits of a number\<close>

text \<open>
  The natural digit count of the width invariant: the number of digits of \<open>x\<close> in the
  radix \<open>b\<close> without leading zeros, one digit for 0.  It is not part of the source; it
  is the usual count that the specification's invariant refers to.
\<close>

function ndigits :: "nat \<Rightarrow> nat \<Rightarrow> nat" where
  "ndigits b x = (if b < 2 then 1 else if x < b then 1 else Suc (ndigits b (x div b)))"
  by pat_completeness auto
termination
  by (relation "measure snd") auto

declare ndigits.simps [simp del]

text \<open>The value of a list of digits in the radix \<open>b\<close>, least significant digit first.\<close>

fun digits_value :: "nat \<Rightarrow> nat list \<Rightarrow> nat" where
  "digits_value b [] = 0"
| "digits_value b (d # ds) = d + b * digits_value b ds"

section \<open>Reading a rendered integer back\<close>

text \<open>
  The reader of the round-trip property: the value of a digit string in a radix, most
  significant digit first.  It is not part of the source; it follows the usual positional
  reading that the specification's round trip refers to.
\<close>

definition digit_val :: "char \<Rightarrow> nat" where
  "digit_val c =
     (let k = (of_char c :: nat) in
      if of_char CHR ''0'' \<le> k \<and> k \<le> of_char CHR ''9'' then k - of_char CHR ''0''
      else if of_char CHR ''a'' \<le> k \<and> k \<le> of_char CHR ''f'' then k - of_char CHR ''a'' + 10
      else if of_char CHR ''A'' \<le> k \<and> k \<le> of_char CHR ''F'' then k - of_char CHR ''A'' + 10
      else 0)"

definition parse_radix :: "nat \<Rightarrow> string \<Rightarrow> nat" where
  "parse_radix radix s = foldl (\<lambda>acc c. acc * radix + digit_val c) 0 s"

section \<open>Verified properties\<close>

section \<open>Evaluation helpers\<close>

lemma DTOCHAR_eval:
  "DTOCHAR 0 = CHR ''0''" "DTOCHAR (Suc 0) = CHR ''1''" "DTOCHAR 1 = CHR ''1''"
  "DTOCHAR 2 = CHR ''2''" "DTOCHAR 3 = CHR ''3''" "DTOCHAR 4 = CHR ''4''"
  "DTOCHAR 5 = CHR ''5''" "DTOCHAR 6 = CHR ''6''" "DTOCHAR 7 = CHR ''7''"
  "DTOCHAR 8 = CHR ''8''" "DTOCHAR 9 = CHR ''9''"
  by code_simp+

lemma pad_loop_replicate: "pad_loop i first_digit c = replicate (i - first_digit) c"
proof (induction i first_digit c rule: pad_loop.induct)
  case (1 i first_digit c)
  show ?case
  proof (cases "i > first_digit")
    case True
    then have "i - first_digit = Suc (i - 1 - first_digit)" by simp
    with 1 True show ?thesis by (subst pad_loop.simps) simp
  next
    case False
    then show ?thesis by (subst pad_loop.simps) simp
  qed
qed

section \<open>Lengths of the rendered integers\<close>

lemma scan_first_digit_less:
  "fd < i \<Longrightarrow> scan_first_digit fd i ds < i + length ds"
proof (induction ds arbitrary: fd i)
  case Nil
  then show ?case by simp
next
  case (Cons d ds)
  have "scan_first_digit (if d \<noteq> 0 then i else fd) (Suc i) ds < Suc i + length ds"
    using Cons.prems by (intro Cons.IH) simp
  then show ?case by simp
qed

lemma first_digit_in_range:
  assumes "ds \<noteq> []"
  shows "scan_first_digit 0 1 (tl ds) < length ds"
proof -
  have "scan_first_digit 0 1 (tl ds) < 1 + length (tl ds)"
    by (rule scan_first_digit_less) simp
  with assms show ?thesis by (cases ds) simp_all
qed

lemma length_emit_digits:
  "fd < length ds \<Longrightarrow> length (emit_digits tochar fd ds) = Suc fd"
  by (simp add: emit_digits_def)

lemma length_pad_unsigned:
  "length (pad_unsigned cap w fd fl) =
     (if w = 0 then 0 else (if w > cap then cap else w - 1) - fd)"
  by (simp add: pad_unsigned_def pad_loop_replicate Let_def)

lemma length_pad_signed:
  "length (pad_signed cap neg w fd fl) =
     length (addSign neg fl) + (if w = 0 then 0 else (if w > cap then cap else w - 1) - fd)"
  by (simp add: pad_signed_def pad_loop_replicate Let_def)

lemma unsigned_field_length:
  assumes "fd \<le> cap"
  shows "length (pad_unsigned cap w fd fl) + Suc fd = max (Suc fd) (min w (Suc cap))"
  using assms by (auto simp: length_pad_unsigned)

lemma signed_field_length:
  assumes "fd \<le> cap"
  shows "length (pad_signed cap neg w fd fl) + Suc fd =
         length (addSign neg fl) + max (Suc fd) (min w (Suc cap))"
  using assms by (auto simp: length_pad_signed)

lemma length_dec32_digits: "length (dec32_digits x) = 10"
  unfolding dec32_digits_def Let_def length_Cons list.size by simp

lemma length_dec16_digits: "length (dec16_digits x) = 5"
  unfolding dec16_digits_def Let_def length_Cons list.size by simp

lemma length_hex_digits: "length (hex_digits sz x) = 16"
  by (simp add: hex_digits_def)

lemma length_oct_digits: "length (oct_digits sz x) = 22"
  by (simp add: oct_digits_def)

lemma length_reverse_loop: "length (reverse_loop buf start e) = length buf"
proof (induction buf start e rule: reverse_loop.induct)
  case (1 buf start e)
  then show ?case by (subst reverse_loop.simps) simp
qed

lemma length_dec_loop_le: "x < 10 ^ k \<Longrightarrow> length (dec_loop x) \<le> k"
proof (induction k arbitrary: x)
  case 0
  then show ?case by (subst dec_loop.simps) simp
next
  case (Suc k)
  show ?case
  proof (cases "x = 0")
    case True
    then show ?thesis by (subst dec_loop.simps) simp
  next
    case False
    from Suc.prems have "x div 10 < 10 ^ k" by (simp add: less_mult_imp_div_less mult.commute)
    then have "length (dec_loop (x div 10)) \<le> k" by (rule Suc.IH)
    with False show ?thesis by (subst dec_loop.simps) simp
  qed
qed

lemma dec_loop_nonempty: "x \<noteq> 0 \<Longrightarrow> dec_loop x \<noteq> []"
  by (subst dec_loop.simps) simp

lemma dec64_tmp_length:
  assumes "dec64_tmp x = (tmp, fd)"
  shows "length tmp = Suc fd"
proof (cases "x = 0")
  case True
  with assms show ?thesis
    by (auto simp: dec64_tmp_def Let_def reverse_def length_reverse_loop)
next
  case False
  then have "dec_loop x \<noteq> []" by (rule dec_loop_nonempty)
  then have "length (dec_loop x) \<noteq> 0" by simp
  with assms False show ?thesis
    by (auto simp: dec64_tmp_def Let_def reverse_def length_reverse_loop)
qed

lemma dec64_tmp_bound:
  assumes "dec64_tmp x = (tmp, fd)" and "x < 10 ^ k" and "0 < k"
  shows "fd < k"
proof (cases "x = 0")
  case True
  with assms show ?thesis by (auto simp: dec64_tmp_def Let_def)
next
  case False
  have "length (dec_loop x) \<le> k" using assms(2) by (rule length_dec_loop_le)
  moreover have "0 < length (dec_loop x)" using dec_loop_nonempty [OF False] by simp
  moreover have "fd = length (dec_loop x) - 1"
    using assms(1) False by (simp add: dec64_tmp_def Let_def)
  ultimately show ?thesis by linarith
qed


lemma unsigned_render_length:
  assumes "ds \<noteq> []" and "length ds \<le> Suc cap"
  shows "length (pad_unsigned cap w (scan_first_digit 0 1 (tl ds)) fl
                 @ emit_digits tochar (scan_first_digit 0 1 (tl ds)) ds)
         = max (Suc (scan_first_digit 0 1 (tl ds))) (min w (Suc cap))"
proof -
  let ?fd = "scan_first_digit 0 1 (tl ds)"
  have lt: "?fd < length ds" using assms(1) by (rule first_digit_in_range)
  then have "?fd \<le> cap" using assms(2) by simp
  then have "length (pad_unsigned cap w ?fd fl) + Suc ?fd = max (Suc ?fd) (min w (Suc cap))"
    by (rule unsigned_field_length)
  with lt show ?thesis by (simp add: length_emit_digits)
qed

lemma signed_render_length:
  assumes "ds \<noteq> []" and "length ds \<le> Suc cap"
  shows "length (pad_signed cap neg w (scan_first_digit 0 1 (tl ds)) fl
                 @ emit_digits tochar (scan_first_digit 0 1 (tl ds)) ds)
         = length (addSign neg fl) + max (Suc (scan_first_digit 0 1 (tl ds))) (min w (Suc cap))"
proof -
  let ?fd = "scan_first_digit 0 1 (tl ds)"
  have lt: "?fd < length ds" using assms(1) by (rule first_digit_in_range)
  then have "?fd \<le> cap" using assms(2) by simp
  then have "length (pad_signed cap neg w ?fd fl) + Suc ?fd =
             length (addSign neg fl) + max (Suc ?fd) (min w (Suc cap))"
    by (rule signed_field_length)
  with lt show ?thesis by (simp add: length_emit_digits)
qed

lemma zu32toa_length:
  "length (zu32toa n w fl) = max (length (zu32toa n 0 fl)) (min w 10)"
proof -
  let ?ds = "dec32_digits (unat n)"
  have ne: "?ds \<noteq> []" using length_dec32_digits [of "unat n"] by auto
  have le: "length ?ds \<le> Suc 9" by (simp add: length_dec32_digits)
  have a: "length (zu32toa n v fl) = max (Suc (scan_first_digit 0 1 (tl ?ds))) (min v (Suc 9))"
    for v unfolding zu32toa_def Let_def by (rule unsigned_render_length [OF ne le])
  show ?thesis using a [of w] a [of 0] by simp
qed

lemma zi32toa_length:
  "length (zi32toa n w fl) =
     max (length (zi32toa n 0 fl)) (length (addSign (sint n < 0) fl) + min w 10)"
proof -
  let ?ds = "dec32_digits (unat (if sint n < 0 then - n else n))"
  have ne: "?ds \<noteq> []"
    using length_dec32_digits [of "unat (if sint n < 0 then - n else n)"] by auto
  have le: "length ?ds \<le> Suc 9" by (simp add: length_dec32_digits)
  have a: "length (zi32toa n v fl) =
           length (addSign (sint n < 0) fl)
           + max (Suc (scan_first_digit 0 1 (tl ?ds))) (min v (Suc 9))"
    for v unfolding zi32toa_def Let_def by (rule signed_render_length [OF ne le])
  show ?thesis using a [of w] a [of 0] by simp
qed

lemma zu16toa_length:
  "length (zu16toa n w fl) = max (length (zu16toa n 0 fl)) (min w 5)"
proof -
  let ?ds = "dec16_digits (unat n)"
  have ne: "?ds \<noteq> []" using length_dec16_digits [of "unat n"] by auto
  have le: "length ?ds \<le> Suc 4" by (simp add: length_dec16_digits)
  have a: "length (zu16toa n v fl) = max (Suc (scan_first_digit 0 1 (tl ?ds))) (min v (Suc 4))"
    for v unfolding zu16toa_def Let_def by (rule unsigned_render_length [OF ne le])
  show ?thesis using a [of w] a [of 0] by simp
qed

lemma zi16toa_length:
  "length (zi16toa n w fl) =
     max (length (zi16toa n 0 fl)) (length (addSign (sint n < 0) fl) + min w 5)"
proof -
  let ?ds = "dec16_digits (unat (if sint n < 0 then - n else n))"
  have ne: "?ds \<noteq> []"
    using length_dec16_digits [of "unat (if sint n < 0 then - n else n)"] by auto
  have le: "length ?ds \<le> Suc 4" by (simp add: length_dec16_digits)
  have a: "length (zi16toa n v fl) =
           length (addSign (sint n < 0) fl)
           + max (Suc (scan_first_digit 0 1 (tl ?ds))) (min v (Suc 4))"
    for v unfolding zi16toa_def Let_def by (rule signed_render_length [OF ne le])
  show ?thesis using a [of w] a [of 0] by simp
qed

lemma zx64toa_length:
  "length (zx64toa sz n w fl upper) = max (length (zx64toa sz n 0 fl upper)) (min w 16)"
proof -
  let ?ds = "hex_digits sz (unat n)"
  have ne: "?ds \<noteq> []" using length_hex_digits [of sz "unat n"] by auto
  have le: "length ?ds \<le> Suc 15" by (simp add: length_hex_digits)
  have a: "length (zx64toa sz n v fl upper) =
           max (Suc (scan_first_digit 0 1 (tl ?ds))) (min v (Suc 15))"
    for v unfolding zx64toa_def Let_def by (rule unsigned_render_length [OF ne le])
  show ?thesis using a [of w] a [of 0] by simp
qed

lemma zo64toa_length:
  "length (zo64toa sz n w fl) = max (length (zo64toa sz n 0 fl)) (min w 22)"
proof -
  let ?ds = "oct_digits sz (unat n)"
  have ne: "?ds \<noteq> []" using length_oct_digits [of sz "unat n"] by auto
  have le: "length ?ds \<le> Suc 21" by (simp add: length_oct_digits)
  have a: "length (zo64toa sz n v fl) =
           max (Suc (scan_first_digit 0 1 (tl ?ds))) (min v (Suc 21))"
    for v unfolding zo64toa_def Let_def by (rule unsigned_render_length [OF ne le])
  show ?thesis using a [of w] a [of 0] by simp
qed

lemma dec64_tmp_fd_le:
  assumes "dec64_tmp (unat (x :: 64 word)) = (tmp, fd)"
  shows "fd < 20"
proof -
  have "unat x < 2 ^ 64" using unsigned_less [of x] by simp
  then have "unat x < 10 ^ 20" by simp
  with assms show ?thesis by (rule dec64_tmp_bound) simp
qed

lemma zu64toa_large_length:
  assumes "\<not> unat n \<le> 2 ^ 32 - 1" and "dec64_tmp (unat n) = (tmp, fd)"
  shows "length (zu64toa n v fl) = max (Suc fd) (min v 21)"
proof -
  have len: "length tmp = Suc fd" using assms(2) by (rule dec64_tmp_length)
  have "fd < 20" using assms(2) by (rule dec64_tmp_fd_le)
  then have "fd \<le> 20" by simp
  then have "length (pad_unsigned 20 v fd fl) + Suc fd = max (Suc fd) (min v (Suc 20))"
    by (rule unsigned_field_length)
  with assms len show ?thesis by (simp add: zu64toa_def)
qed

lemma zu64toa_length:
  "length (zu64toa n w fl) =
     max (length (zu64toa n 0 fl)) (min w (if unat n \<le> 2 ^ 32 - 1 then 10 else 21))"
proof (cases "unat n \<le> 2 ^ 32 - 1")
  case True
  then show ?thesis
    using zu32toa_length [of "ucast n" w fl] by (simp add: zu64toa_def)
next
  case False
  obtain tmp fd where t: "dec64_tmp (unat n) = (tmp, fd)" by (cases "dec64_tmp (unat n)")
  show ?thesis
    using False zu64toa_large_length [OF False t, of w fl] zu64toa_large_length [OF False t, of 0 fl]
    by simp
qed

lemma zi64toa_large_length:
  assumes "\<not> (- (2 ^ 31) \<le> sint n \<and> sint n \<le> 2 ^ 31 - 1)"
    and "dec64_tmp (unat (if sint n < 0 then - n else n)) = (tmp, fd)"
  shows "length (zi64toa n v fl) = length (addSign (sint n < 0) fl) + max (Suc fd) (min v 20)"
proof -
  have eq: "zi64toa n v fl = pad_signed 19 (sint n < 0) v fd fl @ take (fd + 1) tmp"
    unfolding zi64toa_def Let_def
    by (simp only: if_not_P [OF assms(1)] assms(2) prod.case)
  have len: "length tmp = Suc fd" using assms(2) by (rule dec64_tmp_length)
  have "fd < 20" using assms(2) by (rule dec64_tmp_fd_le)
  then have "fd \<le> 19" by simp
  then have "length (pad_signed 19 (sint n < 0) v fd fl) + Suc fd =
             length (addSign (sint n < 0) fl) + max (Suc fd) (min v (Suc 19))"
    by (rule signed_field_length)
  with len show ?thesis by (simp add: eq)
qed

lemma sint_ucast_32:
  assumes "- (2 ^ 31) \<le> sint (n :: 64 word)" and "sint n \<le> 2 ^ 31 - 1"
  shows "sint (ucast n :: 32 word) = sint n"
proof -
  have "sint (ucast n :: 32 word) = signed_take_bit 31 (uint n)"
    by (simp add: signed_ucast_eq)
  also have "\<dots> = signed_take_bit 31 (take_bit 64 (sint n))"
    by (simp add: uint_sint)
  also have "\<dots> = signed_take_bit 31 (sint n)"
    by (simp add: signed_take_bit_take_bit)
  also have "\<dots> = sint n"
    using assms by (intro signed_take_bit_int_eq_self) simp_all
  finally show ?thesis .
qed

lemma zi64toa_length:
  "length (zi64toa n w fl) =
     max (length (zi64toa n 0 fl))
         (length (addSign (sint n < 0) fl)
          + min w (if - (2 ^ 31) \<le> sint n \<and> sint n \<le> 2 ^ 31 - 1 then 10 else 20))"
proof (cases "- (2 ^ 31) \<le> sint n \<and> sint n \<le> 2 ^ 31 - 1")
  case True
  then have s: "sint (ucast n :: 32 word) = sint n" by (simp add: sint_ucast_32)
  have z: "zi64toa n v fl = zi32toa (ucast n) v fl" for v
    unfolding zi64toa_def by (simp only: if_P [OF True])
  show ?thesis
    using zi32toa_length [of "ucast n" w fl] by (simp only: z s if_P [OF True])
next
  case False
  obtain tmp fd where t: "dec64_tmp (unat (if sint n < 0 then - n else n)) = (tmp, fd)"
    by (cases "dec64_tmp (unat (if sint n < 0 then - n else n))")
  have "length (zi64toa n w fl) =
          max (length (zi64toa n 0 fl)) (length (addSign (sint n < 0) fl) + min w 20)"
    using zi64toa_large_length [OF False t, of w fl] zi64toa_large_length [OF False t, of 0 fl]
    by simp
  then show ?thesis by (simp only: if_not_P [OF False])
qed

section \<open>Digit counts of the rendered integers\<close>

text \<open>
  The digits that a renderer extracts are those of its argument, so the index of the
  first digit is the digit count of the value less one.  This holds for the decimal
  renderers of every size and for the hexadecimal and octal renderers on the size classes
  \<open>ZS32\<close> and \<open>ZS16\<close>; with \<open>ZS64\<close> the hexadecimal and octal renderers skip digits.
\<close>

lemma ndigits_small: "d < b \<Longrightarrow> ndigits b d = 1"
  by (subst ndigits.simps) simp

lemma ndigits_pos: "0 < ndigits b x"
  by (subst ndigits.simps) simp

lemma ndigits_step:
  assumes "2 \<le> b" and "v \<noteq> 0" and "d < b"
  shows "ndigits b (d + b * v) = Suc (ndigits b v)"
proof -
  have "b \<le> b * v" using assms(2) by (cases v) simp_all
  then have ge: "\<not> d + b * v < b" by linarith
  have dv: "(d + b * v) div b = v" using assms(1,3) by simp
  show ?thesis using assms(1) ge dv by (subst ndigits.simps) simp
qed

lemma scan_first_digit_value:
  assumes "2 \<le> b" and "\<forall>d\<in>set ds. d < b"
  shows "scan_first_digit fd i ds =
           (if digits_value b ds = 0 then fd else i + ndigits b (digits_value b ds) - 1)"
  using assms(2)
proof (induction ds arbitrary: fd i)
  case Nil
  then show ?case by simp
next
  case (Cons d ds)
  have d: "d < b" and ds: "\<forall>d\<in>set ds. d < b" using Cons.prems by simp_all
  note ih = Cons.IH [OF ds]
  show ?case
  proof (cases "digits_value b ds = 0")
    case True
    then show ?thesis using d assms(1) by (simp add: ih ndigits_small)
  next
    case False
    have "b * digits_value b ds \<noteq> 0" using False assms(1) by simp
    then show ?thesis
      using False ndigits_pos [of b "digits_value b ds"]
      by (simp add: ih ndigits_step [OF assms(1) False d])
  qed
qed

lemma first_digit_ndigits:
  assumes "2 \<le> b" and "ds \<noteq> []" and "\<forall>d\<in>set ds. d < b"
  shows "Suc (scan_first_digit 0 1 (tl ds)) = ndigits b (digits_value b ds)"
proof -
  obtain d rest where c: "ds = d # rest" using assms(2) by (cases ds) auto
  have d: "d < b" and r: "\<forall>d\<in>set rest. d < b" using assms(3) c by simp_all
  show ?thesis
  proof (cases "digits_value b rest = 0")
    case True
    then show ?thesis using d by (simp add: c scan_first_digit_value [OF assms(1) r] ndigits_small)
  next
    case False
    then show ?thesis
      using ndigits_pos [of b "digits_value b rest"]
      by (simp add: c scan_first_digit_value [OF assms(1) r] ndigits_step [OF assms(1) False d])
  qed
qed

lemma digits_value_append:
  "digits_value b (xs @ ys) = digits_value b xs + b ^ length xs * digits_value b ys"
  by (induction xs) (simp_all add: algebra_simps)

lemma digits_value_true_digits:
  "digits_value b (map (\<lambda>k. x div b ^ k mod b) [0..<n]) = x mod b ^ n"
proof (induction n)
  case 0
  then show ?case by simp
next
  case (Suc n)
  have "x mod (b ^ n * b) = b ^ n * (x div b ^ n mod b) + x mod b ^ n"
    by (rule mod_mult2_eq)
  then show ?case using Suc by (simp add: digits_value_append mult.commute)
qed

lemma true_digits_less: "0 < (b::nat) \<Longrightarrow> \<forall>d\<in>set (map (\<lambda>k. x div b ^ k mod b) [0..<n]). d < b"
  by auto

lemma length_dec_loop: "length (dec_loop x) = (if x = 0 then 0 else ndigits 10 x)"
proof (induction x rule: dec_loop.induct)
  case (1 n)
  show ?case
  proof (cases "n = 0")
    case True
    then show ?thesis by (subst dec_loop.simps) simp
  next
    case False
    have "length (dec_loop n) = Suc (length (dec_loop (n div 10)))"
      using False by (subst dec_loop.simps) simp
    also have "\<dots> = Suc (if n div 10 = 0 then 0 else ndigits 10 (n div 10))"
      using 1 [OF False] by simp
    also have "\<dots> = ndigits 10 n"
      by (subst (2) ndigits.simps) (auto simp: ndigits_small)
    finally show ?thesis using False by simp
  qed
qed

lemma ndigits_bounds:
  assumes "2 \<le> b" and "0 < x"
  shows "b ^ (ndigits b x - 1) \<le> x \<and> x < b ^ ndigits b x"
  using assms(2)
proof (induction x rule: less_induct)
  case (less x)
  show ?case
  proof (cases "x < b")
    case True
    then show ?thesis using less.prems by (simp add: ndigits_small)
  next
    case False
    have n: "ndigits b x = Suc (ndigits b (x div b))"
      using False assms(1) by (subst ndigits.simps) simp
    have lt: "x div b < x" using False assms(1) by (intro div_less_dividend) auto
    have pos: "0 < x div b" using False assms(1) by (simp add: div_greater_zero_iff)
    from less.IH [OF lt pos]
    have ih: "b ^ (ndigits b (x div b) - 1) \<le> x div b" "x div b < b ^ ndigits b (x div b)"
      by simp_all
    have p: "0 < ndigits b (x div b)" by (rule ndigits_pos)
    have "b * b ^ (ndigits b (x div b) - 1) \<le> b * (x div b)" using ih(1) by simp
    also have "\<dots> \<le> x" by simp
    finally have lo: "b ^ ndigits b (x div b) \<le> x"
      using p by (cases "ndigits b (x div b)") simp_all
    have "x < b * b ^ ndigits b (x div b)"
      using ih(2) assms(1) by (simp add: div_less_iff_less_mult mult.commute)
    then show ?thesis using lo by (simp add: n)
  qed
qed

lemma upt4: "[0..<4] = [0, 1, 2, 3 :: nat]"
  by (simp add: upt_rec)

lemma nibbles4:
  fixes x :: nat
  assumes "x < 65536"
  shows "x = x mod 16 + 16 * (x div 16 mod 16) + 256 * (x div 16 ^ 2 mod 16)
             + 4096 * (x div 16 ^ 3 mod 16)"
proof -
  have "digits_value 16 (map (\<lambda>k. x div 16 ^ k mod 16) [0..<4]) = x mod 16 ^ 4"
    by (rule digits_value_true_digits)
  then show ?thesis using assms by (simp add: upt4)
qed

lemma dec16_digits_correct:
  fixes x :: nat
  assumes "x < 65536"
  shows "digits_value 10 (dec16_digits x) = x \<and> (\<forall>d\<in>set (dec16_digits x). d < 10)"
proof -
  define h0 where "h0 = x mod 16"
  define h1 where "h1 = x div 16 mod 16"
  define h2 where "h2 = x div 16 ^ 2 mod 16"
  define h3 where "h3 = x div 16 ^ 3 mod 16"
  have b: "h0 < 16" "h1 < 16" "h2 < 16" "h3 < 16"
    by (simp_all add: h0_def h1_def h2_def h3_def)
  have X: "x = h0 + 16 * h1 + 256 * h2 + 4096 * h3"
    unfolding h0_def h1_def h2_def h3_def using assms by (rule nibbles4)
  define s0 where "s0 = 6 * (h3 + h2 + h1) + h0"
  define q0 where "q0 = s0 div 10"
  define s1 where "s1 = q0 + 9 * h3 + 5 * h2 + h1"
  define q1 where "q1 = s1 div 10"
  define s2 where "s2 = q1 + 2 * h2"
  define q2 where "q2 = s2 div 10"
  define s3 where "s3 = q2 + 4 * h3"
  define q3 where "q3 = s3 div 10"
  have S0: "s0 \<le> 285" using b by (simp add: s0_def)
  have Q0: "q0 \<le> 28" using div_le_mono [OF S0, of 10] by (simp add: q0_def)
  have S1: "s1 \<le> 253" using b Q0 by (simp add: s1_def)
  have Q1: "q1 \<le> 25" using div_le_mono [OF S1, of 10] by (simp add: q1_def)
  have S2: "s2 \<le> 55" using b Q1 by (simp add: s2_def)
  have Q2: "q2 \<le> 5" using div_le_mono [OF S2, of 10] by (simp add: q2_def)
  have S3: "s3 \<le> 65" using b Q2 by (simp add: s3_def)
  have Q3: "q3 \<le> 6" using div_le_mono [OF S3, of 10] by (simp add: q3_def)
  have m0: "(6 * (h3 + h2 + h1) + h0) mod 65536 = s0" using S0 by (simp add: s0_def)
  have n0: "s0 div 10 mod 256 = q0" using Q0 by (simp add: q0_def)
  have m1: "(q0 + 9 * h3 + 5 * h2 + h1) mod 256 = s1" using S1 by (simp add: s1_def)
  have m2: "(q1 + 2 * h2) mod 256 = s2" using S2 by (simp add: s2_def)
  have m3: "(q2 + 4 * h3) mod 256 = s3" using S3 by (simp add: s3_def)
  have eq: "dec16_digits x = [s0 mod 10, s1 mod 10, s2 mod 10, s3 mod 10, q3]"
    unfolding dec16_digits_def Let_def h0_def [symmetric] h1_def [symmetric]
      h2_def [symmetric] h3_def [symmetric]
    by (simp only: m0 n0 m1 q1_def [symmetric] m2 q2_def [symmetric] m3 q3_def [symmetric])
  have d: "s0 = 10 * q0 + s0 mod 10" "s1 = 10 * q1 + s1 mod 10" "s2 = 10 * q2 + s2 mod 10"
    "s3 = 10 * q3 + s3 mod 10"
    by (simp_all add: q0_def q1_def q2_def q3_def)
  have v: "digits_value 10 (dec16_digits x) = x"
    unfolding eq using d X s0_def s1_def s2_def s3_def by simp
  have l: "\<forall>d\<in>set (dec16_digits x). d < 10"
    unfolding eq using Q3 by simp
  show ?thesis using v l by simp
qed

lemma upt8: "[0..<8] = [0, 1, 2, 3, 4, 5, 6, 7 :: nat]"
  by (simp add: upt_rec)

lemma nibbles8:
  fixes x :: nat
  assumes "x < 4294967296"
  shows "x = x mod 16 + 16 * (x div 16 mod 16) + 256 * (x div 16 ^ 2 mod 16)
             + 4096 * (x div 16 ^ 3 mod 16) + 65536 * (x div 16 ^ 4 mod 16)
             + 1048576 * (x div 16 ^ 5 mod 16) + 16777216 * (x div 16 ^ 6 mod 16)
             + 268435456 * (x div 16 ^ 7 mod 16)"
proof -
  have "digits_value 16 (map (\<lambda>k. x div 16 ^ k mod 16) [0..<8]) = x mod 16 ^ 8"
    by (rule digits_value_true_digits)
  then show ?thesis using assms by (simp add: upt8)
qed

lemma carry_step:
  assumes "digits_value 10 (ds @ [q]) = S" and "a = 10 * q' + d" and "a = q + c"
  shows "digits_value 10 (ds @ [d, q']) = S + 10 ^ length ds * c"
proof -
  have "d + 10 * q' = q + c" using assms(2,3) by simp
  then have "10 ^ length ds * (d + 10 * q') = 10 ^ length ds * q + 10 ^ length ds * c"
    by (simp add: distrib_left)
  then show ?thesis using assms(1) by (simp add: digits_value_append)
qed

lemma dec32_digits_correct:
  fixes x :: nat
  assumes "x < 4294967296"
  shows "digits_value 10 (dec32_digits x) = x \<and> (\<forall>d\<in>set (dec32_digits x). d < 10)"
proof -
  define n0 where "n0 = x mod 16"
  define n1 where "n1 = x div 16 mod 16"
  define n2 where "n2 = x div 16 ^ 2 mod 16"
  define n3 where "n3 = x div 16 ^ 3 mod 16"
  define n4 where "n4 = x div 16 ^ 4 mod 16"
  define n5 where "n5 = x div 16 ^ 5 mod 16"
  define n6 where "n6 = x div 16 ^ 6 mod 16"
  define n7 where "n7 = x div 16 ^ 7 mod 16"
  note n_defs = n0_def n1_def n2_def n3_def n4_def n5_def n6_def n7_def
  have b: "n0 < 16" "n1 < 16" "n2 < 16" "n3 < 16" "n4 < 16" "n5 < 16" "n6 < 16" "n7 < 16"
    by (simp_all add: n_defs)
  have X: "x = n0 + 16 * n1 + 256 * n2 + 4096 * n3 + 65536 * n4 + 1048576 * n5
             + 16777216 * n6 + 268435456 * n7"
    unfolding n_defs using assms by (rule nibbles8)
  define a0 where "a0 = 6 * (n7 + n6 + n5 + n4 + n3 + n2 + n1) + n0"
  define q0 where "q0 = a0 div 10"
  define a1 where "a1 = q0 + 5 * n7 + n6 + 7 * n5 + 3 * n4 + 9 * n3 + 5 * n2 + n1"
  define q1 where "q1 = a1 div 10"
  define a2 where "a2 = q1 + 4 * n7 + 2 * n6 + 5 * n5 + 5 * n4 + 2 * n2"
  define q2 where "q2 = a2 div 10"
  define a3 where "a3 = q2 + 5 * n7 + 7 * n6 + 8 * n5 + 5 * n4 + 4 * n3"
  define q3 where "q3 = a3 div 10"
  define a4 where "a4 = q3 + 3 * n7 + 7 * n6 + 4 * n5 + 6 * n4"
  define q4 where "q4 = a4 div 10"
  define a5 where "a5 = q4 + 4 * n7 + 7 * n6"
  define q5 where "q5 = a5 div 10"
  define a6 where "a6 = q5 + 8 * n7 + 6 * n6 + n5"
  define q6 where "q6 = a6 div 10"
  define a7 where "a7 = q6 + 6 * n7 + n6"
  define q7 where "q7 = a7 div 10"
  define a8 where "a8 = q7 + 2 * n7"
  define q8 where "q8 = a8 div 10"
  define d0 where "d0 = a0 mod 10"
  define d1 where "d1 = a1 mod 10"
  define d2 where "d2 = a2 mod 10"
  define d3 where "d3 = a3 mod 10"
  define d4 where "d4 = a4 mod 10"
  define d5 where "d5 = a5 mod 10"
  define d6 where "d6 = a6 mod 10"
  define d7 where "d7 = a7 mod 10"
  define d8 where "d8 = a8 mod 10"
  note a_defs = a0_def a1_def a2_def a3_def a4_def a5_def a6_def a7_def a8_def
  have A0: "a0 \<le> 645" using b by (simp add: a0_def)
  have Q0: "q0 \<le> 64" using div_le_mono [OF A0, of 10] by (simp add: q0_def)
  have A1: "a1 \<le> 529" using b Q0 by (simp add: a1_def)
  have Q1: "q1 \<le> 52" using div_le_mono [OF A1, of 10] by (simp add: q1_def)
  have A2: "a2 \<le> 322" using b Q1 by (simp add: a2_def)
  have Q2: "q2 \<le> 32" using div_le_mono [OF A2, of 10] by (simp add: q2_def)
  have A3: "a3 \<le> 467" using b Q2 by (simp add: a3_def)
  have Q3: "q3 \<le> 46" using div_le_mono [OF A3, of 10] by (simp add: q3_def)
  have A4: "a4 \<le> 346" using b Q3 by (simp add: a4_def)
  have Q4: "q4 \<le> 34" using div_le_mono [OF A4, of 10] by (simp add: q4_def)
  have A5: "a5 \<le> 199" using b Q4 by (simp add: a5_def)
  have Q5: "q5 \<le> 19" using div_le_mono [OF A5, of 10] by (simp add: q5_def)
  have A6: "a6 \<le> 244" using b Q5 by (simp add: a6_def)
  have Q6: "q6 \<le> 24" using div_le_mono [OF A6, of 10] by (simp add: q6_def)
  have A7: "a7 \<le> 129" using b Q6 by (simp add: a7_def)
  have Q7: "q7 \<le> 12" using div_le_mono [OF A7, of 10] by (simp add: q7_def)
  have A8: "a8 \<le> 42" using b Q7 by (simp add: a8_def)
  have Q8: "q8 \<le> 4" using div_le_mono [OF A8, of 10] by (simp add: q8_def)
  have m0: "(6 * (n7 + n6 + n5 + n4 + n3 + n2 + n1) + n0) mod 65536 = a0"
    using A0 by (simp add: a0_def)
  have k0: "a0 div 10 mod 256 = q0" using Q0 by (simp add: q0_def)
  have m1: "(q0 + 5 * n7 + n6 + 7 * n5 + 3 * n4 + 9 * n3 + 5 * n2 + n1) mod 65536 = a1"
    using A1 by (simp add: a1_def)
  have k1: "a1 div 10 mod 256 = q1" using Q1 by (simp add: q1_def)
  have m2: "(q1 + 4 * n7 + 2 * n6 + 5 * n5 + 5 * n4 + 2 * n2) mod 65536 = a2"
    using A2 by (simp add: a2_def)
  have k2: "a2 div 10 mod 256 = q2" using Q2 by (simp add: q2_def)
  have m3: "(q2 + 5 * n7 + 7 * n6 + 8 * n5 + 5 * n4 + 4 * n3) mod 65536 = a3"
    using A3 by (simp add: a3_def)
  have k3: "a3 div 10 mod 256 = q3" using Q3 by (simp add: q3_def)
  have m4: "(q3 + 3 * n7 + 7 * n6 + 4 * n5 + 6 * n4) mod 65536 = a4"
    using A4 by (simp add: a4_def)
  have k4: "a4 div 10 mod 256 = q4" using Q4 by (simp add: q4_def)
  have m5: "(q4 + 4 * n7 + 7 * n6) mod 256 = a5" using A5 by (simp add: a5_def)
  have m6: "(q5 + 8 * n7 + 6 * n6 + n5) mod 256 = a6" using A6 by (simp add: a6_def)
  have m7: "(q6 + 6 * n7 + n6) mod 256 = a7" using A7 by (simp add: a7_def)
  have m8: "(q7 + 2 * n7) mod 256 = a8" using A8 by (simp add: a8_def)
  have eq: "dec32_digits x =
      [d0, d1, d2, d3, d4, d5, d6, d7, d8, q8]"
    unfolding dec32_digits_def Let_def n0_def [symmetric] n1_def [symmetric]
      n2_def [symmetric] n3_def [symmetric] n4_def [symmetric] n5_def [symmetric]
      n6_def [symmetric] n7_def [symmetric]
    by (simp only: m0 k0 m1 k1 m2 k2 m3 k3 m4 k4 m5 q5_def [symmetric] m6 q6_def [symmetric]
        m7 q7_def [symmetric] m8 q8_def [symmetric] d0_def [symmetric] d1_def [symmetric]
        d2_def [symmetric] d3_def [symmetric] d4_def [symmetric] d5_def [symmetric]
        d6_def [symmetric] d7_def [symmetric] d8_def [symmetric])
  have d: "a0 = 10 * q0 + d0" "a1 = 10 * q1 + d1" "a2 = 10 * q2 + d2"
    "a3 = 10 * q3 + d3" "a4 = 10 * q4 + d4" "a5 = 10 * q5 + d5"
    "a6 = 10 * q6 + d6" "a7 = 10 * q7 + d7" "a8 = 10 * q8 + d8"
    by (simp_all add: q0_def q1_def q2_def q3_def q4_def q5_def q6_def q7_def q8_def
        d0_def d1_def d2_def d3_def d4_def d5_def d6_def d7_def d8_def)
  define c0 where "c0 = 6 * (n7 + n6 + n5 + n4 + n3 + n2 + n1) + n0"
  define c1 where "c1 = 5 * n7 + n6 + 7 * n5 + 3 * n4 + 9 * n3 + 5 * n2 + n1"
  define c2 where "c2 = 4 * n7 + 2 * n6 + 5 * n5 + 5 * n4 + 2 * n2"
  define c3 where "c3 = 5 * n7 + 7 * n6 + 8 * n5 + 5 * n4 + 4 * n3"
  define c4 where "c4 = 3 * n7 + 7 * n6 + 4 * n5 + 6 * n4"
  define c5 where "c5 = 4 * n7 + 7 * n6"
  define c6 where "c6 = 8 * n7 + 6 * n6 + n5"
  define c7 where "c7 = 6 * n7 + n6"
  define c8 where "c8 = 2 * n7"
  note c_defs = c0_def c1_def c2_def c3_def c4_def c5_def c6_def c7_def c8_def
  have r: "a0 = c0" "a1 = q0 + c1" "a2 = q1 + c2" "a3 = q2 + c3" "a4 = q3 + c4" "a5 = q4 + c5" "a6 = q5 + c6" "a7 = q6 + c7" "a8 = q7 + c8"
    by (simp_all add: a_defs c_defs)
  have p0: "digits_value 10 [d0, q0] = c0"
    using d(1) r(1) by simp
  have p1: "digits_value 10 [d0, d1, q1]
      = c0 + 10 * c1"
    using carry_step [of "[d0]" q0 "c0" a1 q1 d1 c1] p0 d(2) r(2) by simp
  have p2: "digits_value 10 [d0, d1, d2, q2]
      = c0 + 10 * c1 + 100 * c2"
    using carry_step [of "[d0, d1]" q1 "c0 + 10 * c1" a2 q2 d2 c2] p1 d(3) r(3) by simp
  have p3: "digits_value 10 [d0, d1, d2, d3, q3]
      = c0 + 10 * c1 + 100 * c2 + 1000 * c3"
    using carry_step [of "[d0, d1, d2]" q2 "c0 + 10 * c1 + 100 * c2" a3 q3 d3 c3] p2 d(4) r(4) by simp
  have p4: "digits_value 10 [d0, d1, d2, d3, d4, q4]
      = c0 + 10 * c1 + 100 * c2 + 1000 * c3 + 10000 * c4"
    using carry_step [of "[d0, d1, d2, d3]" q3 "c0 + 10 * c1 + 100 * c2 + 1000 * c3" a4 q4 d4 c4] p3 d(5) r(5) by simp
  have p5: "digits_value 10 [d0, d1, d2, d3, d4, d5, q5]
      = c0 + 10 * c1 + 100 * c2 + 1000 * c3 + 10000 * c4 + 100000 * c5"
    using carry_step [of "[d0, d1, d2, d3, d4]" q4 "c0 + 10 * c1 + 100 * c2 + 1000 * c3 + 10000 * c4" a5 q5 d5 c5] p4 d(6) r(6) by simp
  have p6: "digits_value 10 [d0, d1, d2, d3, d4, d5, d6, q6]
      = c0 + 10 * c1 + 100 * c2 + 1000 * c3 + 10000 * c4 + 100000 * c5 + 1000000 * c6"
    using carry_step [of "[d0, d1, d2, d3, d4, d5]" q5 "c0 + 10 * c1 + 100 * c2 + 1000 * c3 + 10000 * c4 + 100000 * c5" a6 q6 d6 c6] p5 d(7) r(7) by simp
  have p7: "digits_value 10 [d0, d1, d2, d3, d4, d5, d6, d7, q7]
      = c0 + 10 * c1 + 100 * c2 + 1000 * c3 + 10000 * c4 + 100000 * c5 + 1000000 * c6 + 10000000 * c7"
    using carry_step [of "[d0, d1, d2, d3, d4, d5, d6]" q6 "c0 + 10 * c1 + 100 * c2 + 1000 * c3 + 10000 * c4 + 100000 * c5 + 1000000 * c6" a7 q7 d7 c7] p6 d(8) r(8) by simp
  have p8: "digits_value 10 [d0, d1, d2, d3, d4, d5, d6, d7, d8, q8]
      = c0 + 10 * c1 + 100 * c2 + 1000 * c3 + 10000 * c4 + 100000 * c5 + 1000000 * c6 + 10000000 * c7 + 100000000 * c8"
    using carry_step [of "[d0, d1, d2, d3, d4, d5, d6, d7]" q7 "c0 + 10 * c1 + 100 * c2 + 1000 * c3 + 10000 * c4 + 100000 * c5 + 1000000 * c6 + 10000000 * c7" a8 q8 d8 c8] p7 d(9) r(9) by simp
  have s: "c0 + 10 * c1 + 100 * c2 + 1000 * c3 + 10000 * c4 + 100000 * c5 + 1000000 * c6 + 10000000 * c7 + 100000000 * c8 = x"
    unfolding c_defs using X by simp
  have v: "digits_value 10 (dec32_digits x) = x"
    unfolding eq p8 by (rule s)
  have l: "\<forall>d\<in>set (dec32_digits x). d < 10"
    unfolding eq using Q8 by (simp add: d0_def d1_def d2_def d3_def d4_def d5_def d6_def
        d7_def d8_def)
  show ?thesis using v l by simp
qed

lemma hex_digits_all:
  assumes "sz \<noteq> ZS64"
  shows "hex_digits sz x = map (\<lambda>k. x div 16 ^ k mod 16) [0..<16]"
proof -
  have "hex_extracted sz k" for k
    using assms by (cases sz) (auto simp: hex_extracted_def)
  then show ?thesis by (simp add: hex_digits_def)
qed

lemma oct_digits_all:
  assumes "sz \<noteq> ZS64"
  shows "oct_digits sz x = map (\<lambda>k. x div 8 ^ k mod 8) [0..<22]"
proof -
  have "oct_extracted sz k" for k
    using assms by (cases sz) (auto simp: oct_extracted_def)
  then show ?thesis by (simp add: oct_digits_def)
qed

lemma hex_digits_value:
  assumes "sz \<noteq> ZS64"
  shows "digits_value 16 (hex_digits sz (unat (n :: 64 word))) = unat n"
proof -
  have "unat n < 2 ^ 64" using unsigned_less [of n] by simp
  then have "unat n mod 16 ^ 16 = unat n" by simp
  then show ?thesis
    using digits_value_true_digits [of 16 "unat n" 16] by (simp add: hex_digits_all [OF assms])
qed

lemma oct_digits_value:
  assumes "sz \<noteq> ZS64"
  shows "digits_value 8 (oct_digits sz (unat (n :: 64 word))) = unat n"
proof -
  have "unat n < 2 ^ 64" using unsigned_less [of n] by simp
  then have "unat n mod 8 ^ 22 = unat n" by simp
  then show ?thesis
    using digits_value_true_digits [of 8 "unat n" 22] by (simp add: oct_digits_all [OF assms])
qed

lemma unat_abs_word:
  fixes n :: "'a::len word"
  shows "unat (if sint n < 0 then - n else n) = nat \<bar>sint n\<bar>"
proof -
  have p: "(2::int) ^ (LENGTH('a) - 1) < 2 ^ LENGTH('a)" by simp
  have u: "uint n = sint n mod 2 ^ LENGTH('a)" by (simp add: uint_sint take_bit_eq_mod)
  show ?thesis
  proof (cases "sint n < 0")
    case True
    have lo: "- (2 ^ (LENGTH('a) - 1)) \<le> sint n" by (rule sint_ge)
    have "uint (- n) = (- uint n) mod 2 ^ LENGTH('a)" by (simp add: uint_word_ariths)
    also have "\<dots> = (- sint n) mod 2 ^ LENGTH('a)" unfolding u by (simp add: mod_minus_eq)
    also have "\<dots> = - sint n" using True lo p by (intro mod_pos_pos_trivial) linarith+
    finally have "uint (- n) = - sint n" .
    then have "unat (- n) = nat (- sint n)" by (simp only: unat_eq_nat_uint)
    then show ?thesis using True by simp
  next
    case False
    have hi: "sint n < 2 ^ (LENGTH('a) - 1)" by (rule sint_lt)
    have "sint n mod 2 ^ LENGTH('a) = sint n"
      using False hi p by (intro mod_pos_pos_trivial) linarith+
    then have "uint n = sint n" using u by simp
    then have "unat n = nat (sint n)" by (simp only: unat_eq_nat_uint)
    then show ?thesis using False by simp
  qed
qed

lemma unat_ucast_64_32:
  assumes "unat (n :: 64 word) \<le> 2 ^ 32 - 1"
  shows "unat (ucast n :: 32 word) = unat n"
proof -
  have "unat (ucast n :: 32 word) = take_bit 32 (unat n)"
    by (simp add: unsigned_ucast_eq)
  also have "\<dots> = unat n" using assms by (simp add: take_bit_eq_mod)
  finally show ?thesis .
qed

lemma dec64_tmp_ndigits:
  assumes "dec64_tmp x = (tmp, fd)"
  shows "Suc fd = ndigits 10 x"
proof (cases "x = 0")
  case True
  with assms show ?thesis by (auto simp: dec64_tmp_def Let_def ndigits_small)
next
  case False
  have "0 < ndigits 10 x" by (rule ndigits_pos)
  moreover have "fd = length (dec_loop x) - 1"
    using assms False by (simp add: dec64_tmp_def Let_def)
  ultimately show ?thesis using False by (simp add: length_dec_loop)
qed

lemma dec32_first_digit:
  fixes x :: nat
  assumes "x < 4294967296"
  shows "Suc (scan_first_digit 0 1 (tl (dec32_digits x))) = ndigits 10 x"
proof -
  have ne: "dec32_digits x \<noteq> []" using length_dec32_digits [of x] by auto
  have c: "digits_value 10 (dec32_digits x) = x" "\<forall>d\<in>set (dec32_digits x). d < 10"
    using dec32_digits_correct [OF assms] by simp_all
  show ?thesis using first_digit_ndigits [OF _ ne c(2)] c(1) by simp
qed

lemma dec16_first_digit:
  fixes x :: nat
  assumes "x < 65536"
  shows "Suc (scan_first_digit 0 1 (tl (dec16_digits x))) = ndigits 10 x"
proof -
  have ne: "dec16_digits x \<noteq> []" using length_dec16_digits [of x] by auto
  have c: "digits_value 10 (dec16_digits x) = x" "\<forall>d\<in>set (dec16_digits x). d < 10"
    using dec16_digits_correct [OF assms] by simp_all
  show ?thesis using first_digit_ndigits [OF _ ne c(2)] c(1) by simp
qed

lemma hex_first_digit:
  assumes "sz \<noteq> ZS64"
  shows "Suc (scan_first_digit 0 1 (tl (hex_digits sz (unat (n :: 64 word)))))
         = ndigits 16 (unat n)"
proof -
  let ?ds = "hex_digits sz (unat n)"
  have ne: "?ds \<noteq> []" using length_hex_digits [of sz "unat n"] by auto
  have lt: "\<forall>d\<in>set ?ds. d < 16"
    unfolding hex_digits_all [OF assms] by (rule true_digits_less) simp
  show ?thesis using first_digit_ndigits [OF _ ne lt] hex_digits_value [OF assms, of n] by simp
qed

lemma oct_first_digit:
  assumes "sz \<noteq> ZS64"
  shows "Suc (scan_first_digit 0 1 (tl (oct_digits sz (unat (n :: 64 word)))))
         = ndigits 8 (unat n)"
proof -
  let ?ds = "oct_digits sz (unat n)"
  have ne: "?ds \<noteq> []" using length_oct_digits [of sz "unat n"] by auto
  have lt: "\<forall>d\<in>set ?ds. d < 8"
    unfolding oct_digits_all [OF assms] by (rule true_digits_less) simp
  show ?thesis using first_digit_ndigits [OF _ ne lt] oct_digits_value [OF assms, of n] by simp
qed

lemma unat32_less: "unat (n :: 32 word) < 4294967296"
  using unsigned_less [of n] by simp

lemma unat16_less: "unat (n :: 16 word) < 65536"
  using unsigned_less [of n] by simp

lemma zu32toa_digits:
  "length (zu32toa n w fl) = max (ndigits 10 (unat n)) (min w 10)"
proof -
  let ?ds = "dec32_digits (unat n)"
  have ne: "?ds \<noteq> []" using length_dec32_digits [of "unat n"] by auto
  have le: "length ?ds \<le> Suc 9" by (simp add: length_dec32_digits)
  have "length (zu32toa n w fl) = max (Suc (scan_first_digit 0 1 (tl ?ds))) (min w (Suc 9))"
    unfolding zu32toa_def Let_def by (rule unsigned_render_length [OF ne le])
  then show ?thesis using dec32_first_digit [OF unat32_less, of n] by simp
qed

lemma zi32toa_digits:
  "length (zi32toa n w fl) =
     length (addSign (sint n < 0) fl) + max (ndigits 10 (nat \<bar>sint n\<bar>)) (min w 10)"
proof -
  let ?x = "unat (if sint n < 0 then - n else n)"
  let ?ds = "dec32_digits ?x"
  have ne: "?ds \<noteq> []" using length_dec32_digits [of ?x] by auto
  have le: "length ?ds \<le> Suc 9" by (simp add: length_dec32_digits)
  have "length (zi32toa n w fl) =
          length (addSign (sint n < 0) fl)
          + max (Suc (scan_first_digit 0 1 (tl ?ds))) (min w (Suc 9))"
    unfolding zi32toa_def Let_def by (rule signed_render_length [OF ne le])
  then show ?thesis
    using dec32_first_digit [OF unat32_less, of "if sint n < 0 then - n else n"]
    by (simp add: unat_abs_word)
qed

lemma zu16toa_digits:
  "length (zu16toa n w fl) = max (ndigits 10 (unat n)) (min w 5)"
proof -
  let ?ds = "dec16_digits (unat n)"
  have ne: "?ds \<noteq> []" using length_dec16_digits [of "unat n"] by auto
  have le: "length ?ds \<le> Suc 4" by (simp add: length_dec16_digits)
  have "length (zu16toa n w fl) = max (Suc (scan_first_digit 0 1 (tl ?ds))) (min w (Suc 4))"
    unfolding zu16toa_def Let_def by (rule unsigned_render_length [OF ne le])
  then show ?thesis using dec16_first_digit [OF unat16_less, of n] by simp
qed

lemma zi16toa_digits:
  "length (zi16toa n w fl) =
     length (addSign (sint n < 0) fl) + max (ndigits 10 (nat \<bar>sint n\<bar>)) (min w 5)"
proof -
  let ?x = "unat (if sint n < 0 then - n else n)"
  let ?ds = "dec16_digits ?x"
  have ne: "?ds \<noteq> []" using length_dec16_digits [of ?x] by auto
  have le: "length ?ds \<le> Suc 4" by (simp add: length_dec16_digits)
  have "length (zi16toa n w fl) =
          length (addSign (sint n < 0) fl)
          + max (Suc (scan_first_digit 0 1 (tl ?ds))) (min w (Suc 4))"
    unfolding zi16toa_def Let_def by (rule signed_render_length [OF ne le])
  then show ?thesis
    using dec16_first_digit [OF unat16_less, of "if sint n < 0 then - n else n"]
    by (simp add: unat_abs_word)
qed

lemma zx64toa_digits:
  assumes "sz \<noteq> ZS64"
  shows "length (zx64toa sz n w fl upper) = max (ndigits 16 (unat n)) (min w 16)"
proof -
  let ?ds = "hex_digits sz (unat n)"
  have ne: "?ds \<noteq> []" using length_hex_digits [of sz "unat n"] by auto
  have le: "length ?ds \<le> Suc 15" by (simp add: length_hex_digits)
  have "length (zx64toa sz n w fl upper) =
          max (Suc (scan_first_digit 0 1 (tl ?ds))) (min w (Suc 15))"
    unfolding zx64toa_def Let_def by (rule unsigned_render_length [OF ne le])
  then show ?thesis using hex_first_digit [OF assms, of n] by simp
qed

lemma zo64toa_digits:
  assumes "sz \<noteq> ZS64"
  shows "length (zo64toa sz n w fl) = max (ndigits 8 (unat n)) (min w 22)"
proof -
  let ?ds = "oct_digits sz (unat n)"
  have ne: "?ds \<noteq> []" using length_oct_digits [of sz "unat n"] by auto
  have le: "length ?ds \<le> Suc 21" by (simp add: length_oct_digits)
  have "length (zo64toa sz n w fl) =
          max (Suc (scan_first_digit 0 1 (tl ?ds))) (min w (Suc 21))"
    unfolding zo64toa_def Let_def by (rule unsigned_render_length [OF ne le])
  then show ?thesis using oct_first_digit [OF assms, of n] by simp
qed

lemma zu64toa_digits:
  "length (zu64toa n w fl) =
     max (ndigits 10 (unat n)) (min w (if unat n \<le> 2 ^ 32 - 1 then 10 else 21))"
proof (cases "unat n \<le> 2 ^ 32 - 1")
  case True
  then show ?thesis
    using zu32toa_digits [of "ucast n" w fl] unat_ucast_64_32 [OF True]
    by (simp add: zu64toa_def)
next
  case False
  obtain tmp fd where t: "dec64_tmp (unat n) = (tmp, fd)" by (cases "dec64_tmp (unat n)")
  show ?thesis
    using False zu64toa_large_length [OF False t, of w fl] dec64_tmp_ndigits [OF t]
    by simp
qed

lemma zi64toa_digits:
  "length (zi64toa n w fl) =
     length (addSign (sint n < 0) fl)
     + max (ndigits 10 (nat \<bar>sint n\<bar>))
           (min w (if - (2 ^ 31) \<le> sint n \<and> sint n \<le> 2 ^ 31 - 1 then 10 else 20))"
proof (cases "- (2 ^ 31) \<le> sint n \<and> sint n \<le> 2 ^ 31 - 1")
  case True
  then have s: "sint (ucast n :: 32 word) = sint n" by (simp add: sint_ucast_32)
  have z: "zi64toa n w fl = zi32toa (ucast n) w fl"
    unfolding zi64toa_def by (simp only: if_P [OF True])
  show ?thesis
    using zi32toa_digits [of "ucast n" w fl] by (simp only: z s if_P [OF True])
next
  case False
  obtain tmp fd where t: "dec64_tmp (unat (if sint n < 0 then - n else n)) = (tmp, fd)"
    by (cases "dec64_tmp (unat (if sint n < 0 then - n else n))")
  have "Suc fd = ndigits 10 (nat \<bar>sint n\<bar>)"
    using dec64_tmp_ndigits [OF t] by (simp only: unat_abs_word)
  then have "length (zi64toa n w fl) =
          length (addSign (sint n < 0) fl) + max (ndigits 10 (nat \<bar>sint n\<bar>)) (min w 20)"
    using zi64toa_large_length [OF False t, of w fl] by simp
  then show ?thesis by (simp only: if_not_P [OF False])
qed

lemma length_addSign:
  "length (addSign neg fl) = (if neg \<or> sign fl \<noteq> auto_sign then 1 else 0)"
  by (cases "sign fl") (simp_all add: addSign_def)

section \<open>Sign and padding order\<close>

lemma dec32_digits_3: "dec32_digits 3 = [3, 0, 0, 0, 0, 0, 0, 0, 0, 0]"
  unfolding dec32_digits_def Let_def by simp

lemma zi32toa_minus3_zero: "zi32toa (- 3) 5 (flags0\<lparr>zeropad := True\<rparr>) = ''-00003''"
  unfolding zi32toa_def Let_def
  apply (simp add: dec32_digits_3 pad_signed_def flags0_def addSign_def pad_loop_replicate
      emit_digits_def DTOCHAR_eval)
  apply (simp add: numeral_eq_Suc)
  done

lemma zi32toa_minus3_space: "zi32toa (- 3) 5 flags0 = ''    -3''"
  unfolding zi32toa_def Let_def
  apply (simp add: dec32_digits_3 pad_signed_def flags0_def addSign_def pad_loop_replicate
      emit_digits_def DTOCHAR_eval)
  apply (simp add: numeral_eq_Suc)
  done

text \<open>
  C2 (as stated, refuted).  The claim says that \<open>-3\<close> with the zero-pad flag and
  width 5 renders as \<open>-0003\<close> and with space padding as three spaces and \<open>-3\<close>.
  The renderer pads the digits alone to the width and adds the sign on top: the results
  are six characters long.
\<close>

theorem zi32toa_minus3_width5_not_as_claimed:
  "zi32toa (- 3) 5 (flags0\<lparr>zeropad := True\<rparr>) \<noteq> ''-0003'' \<and>
   zi32toa (- 3) 5 flags0 \<noteq> ''   -3''"
  by (simp add: zi32toa_minus3_zero zi32toa_minus3_space)

text \<open>
  C2 (amended).  The width counts the digits only, the sign character is added to it:
  \<open>-3\<close> with the zero-pad flag and width 5 renders as \<open>-00003\<close> (sign before the
  zeros), and with space padding as four spaces followed by \<open>-3\<close> (sign immediately
  before the first digit).
\<close>

theorem zi32toa_minus3_width5:
  "zi32toa (- 3) 5 (flags0\<lparr>zeropad := True\<rparr>) = ''-00003'' \<and>
   zi32toa (- 3) 5 flags0 = ''    -3''"
  by (simp add: zi32toa_minus3_zero zi32toa_minus3_space)

section \<open>Width and padding\<close>

lemma dec32_digits_5: "dec32_digits 5 = [5, 0, 0, 0, 0, 0, 0, 0, 0, 0]"
  unfolding dec32_digits_def Let_def by simp

lemma zu32toa_5_natural: "zu32toa 5 0 flags0 = ''5''"
  unfolding zu32toa_def Let_def
  by (simp add: dec32_digits_5 pad_unsigned_def emit_digits_def DTOCHAR_eval)

lemma zu32toa_5_width11: "zu32toa 5 11 flags0 = ''         5''"
  unfolding zu32toa_def Let_def
  apply (simp add: dec32_digits_5 pad_unsigned_def emit_digits_def DTOCHAR_eval flags0_def
      pad_loop_replicate)
  apply (simp add: numeral_eq_Suc)
  done

text \<open>
  C3 (as stated, refuted).  The value 5 has one digit, which is below the requested width
  11, but \<open>zu32toa\<close> clamps the width to its ten digit positions: the rendered text is
  ten characters long, not eleven.  The value \<open>-3\<close> has one digit and one sign character,
  two characters that are below the requested width 5, but the width pads the digits
  alone: the rendered text is six characters long, not five.
\<close>

theorem integer_width_not_as_claimed:
  "ndigits 10 (unat (5 :: 32 word)) \<le> 11 \<and> length (zu32toa 5 11 flags0) \<noteq> 11 \<and>
   ndigits 10 (nat \<bar>sint (- 3 :: 32 word)\<bar>)
     + length (addSign (sint (- 3 :: 32 word) < 0) flags0) \<le> 5 \<and>
   length (zi32toa (- 3) 5 flags0) \<noteq> 5"
  by (simp add: ndigits_small addSign_def zu32toa_5_width11 zi32toa_minus3_space)

text \<open>
  C3 (amended).  For every decimal renderer (16, 32 and 64 bits, signed and unsigned), and
  for the hexadecimal and octal renderers on the 16-bit and 32-bit size classes, for every
  value and requested width \<open>w\<close>: with \<open>k\<close> the number of digits of the value's magnitude
  in the radix, \<open>s\<close> the number of sign characters (at most one, one for a negative value,
  none for the unsigned, hexadecimal and octal renderers) and \<open>C\<close> the digit capacity of
  the render path (5 for 16-bit decimal, 10 for 32-bit decimal and for 64-bit decimal
  values in the 32-bit range, 20 for the other signed and 21 for the other unsigned 64-bit
  decimal values, 16 for hexadecimal, 22 for octal), the rendered length is
  \<open>s + max k (min w C)\<close>.  The width counts digits only, is clamped to the capacity and
  never truncates digits.  The hexadecimal and octal renderers on the 64-bit size class
  are left out: they do not extract every digit.
\<close>

theorem integer_render_length:
  "length (zi16toa a w fl) =
     length (addSign (sint a < 0) fl) + max (ndigits 10 (nat \<bar>sint a\<bar>)) (min w 5) \<and>
   length (zu16toa b w fl) = max (ndigits 10 (unat b)) (min w 5) \<and>
   length (zi32toa c w fl) =
     length (addSign (sint c < 0) fl) + max (ndigits 10 (nat \<bar>sint c\<bar>)) (min w 10) \<and>
   length (zu32toa d w fl) = max (ndigits 10 (unat d)) (min w 10) \<and>
   length (zi64toa e w fl) =
     length (addSign (sint e < 0) fl)
     + max (ndigits 10 (nat \<bar>sint e\<bar>))
           (min w (if - (2 ^ 31) \<le> sint e \<and> sint e \<le> 2 ^ 31 - 1 then 10 else 20)) \<and>
   length (zu64toa f w fl) =
     max (ndigits 10 (unat f)) (min w (if unat f \<le> 2 ^ 32 - 1 then 10 else 21)) \<and>
   length (zx64toa ZS32 g w fl upper) = max (ndigits 16 (unat g)) (min w 16) \<and>
   length (zx64toa ZS16 g w fl upper) = max (ndigits 16 (unat g)) (min w 16) \<and>
   length (zo64toa ZS32 h w fl) = max (ndigits 8 (unat h)) (min w 22) \<and>
   length (zo64toa ZS16 h w fl) = max (ndigits 8 (unat h)) (min w 22) \<and>
   length (addSign neg fl) \<le> 1 \<and> length (addSign True fl) = 1"
  by (intro conjI zi16toa_digits zu16toa_digits zi32toa_digits zu32toa_digits
      zi64toa_digits zu64toa_digits zx64toa_digits zo64toa_digits)
    (simp_all add: length_addSign)

section \<open>Round trip\<close>

lemma upt16: "[0..<16] = [0,1,2,3,4,5,6,7,8,9,10,11,12,13,14,15::nat]"
  by (simp add: upt_rec)

lemma upt22:
  "[0..<22] = [0,1,2,3,4,5,6,7,8,9,10,11,12,13,14,15,16,17,18,19,20,21::nat]"
  by (simp add: upt_rec)

lemma hex_digits_ZS64_65536:
  "hex_digits ZS64 65536 = [0, 0, 0, 0, 0, 0, 0, 0, 0, 0, 0, 0, 0, 0, 0, 0]"
  unfolding hex_digits_def hex_extracted_def upt16 by simp

lemma zx64toa_ZS64_65536: "zx64toa ZS64 65536 0 flags0 False = ''0''"
  unfolding zx64toa_def Let_def
  by (simp add: hex_digits_ZS64_65536 pad_unsigned_def emit_digits_def xTOCHAR_def DTOCHAR_eval)

lemma hex_digits_ZS32_65536:
  "hex_digits ZS32 65536 = [0, 0, 0, 0, 1, 0, 0, 0, 0, 0, 0, 0, 0, 0, 0, 0]"
  unfolding hex_digits_def hex_extracted_def upt16 by simp

lemma zx64toa_ZS32_65536: "zx64toa ZS32 65536 0 flags0 False = ''10000''"
  unfolding zx64toa_def Let_def
  by (simp add: hex_digits_ZS32_65536 pad_unsigned_def emit_digits_def xTOCHAR_def DTOCHAR_eval)

lemma digit_val_eval: "digit_val CHR ''0'' = 0" "digit_val CHR ''1'' = 1"
  by (simp_all add: digit_val_def)

text \<open>
  C4 (the code departs from the claim).  With the size class \<open>ZS64\<close> the test
  \<open>size >= ZS32\<close> is false, because \<open>ZS64\<close> is the smallest enumerator: the hexadecimal
  digits 4 to 7 are never extracted.  The 64-bit value \<open>0x10000\<close> renders as \<open>0\<close>, which
  reads back as 0; the same value renders as \<open>10000\<close> on the 32-bit path and reads back
  as itself.
\<close>

theorem zx64toa_ZS64_loses_digits:
  "zx64toa ZS64 65536 0 flags0 False = ''0'' \<and>
   parse_radix 16 (zx64toa ZS64 65536 0 flags0 False) \<noteq> 65536 \<and>
   parse_radix 16 (zx64toa ZS32 65536 0 flags0 False) = 65536"
  by (simp add: zx64toa_ZS64_65536 zx64toa_ZS32_65536 parse_radix_def digit_val_eval)

section \<open>Float renderer\<close>

lemmas float_eval = fconst_def round_mant_def bitlen.simps Let_def fcast_def fround_def
  dconst_def fof_int_def fadd_def fsub_def

lemmas float_stages = zftoal_def zftoa_gen_def zftoa_fin_def force_exp_def normalise_def
  round_whole_def ilog10_def fpow10_def

lemmas render_eval = pad_signed_def pad_unsigned_def addSign_def emit_digits_def
  pad_loop_replicate DTOCHAR_eval flags0_def

text \<open>
  C8.  Whatever the width, the precision and the flags are, both float renderers (and the
  renderer selected for \<open>double\<close>) map NaN to \<open>NAN\<close>, the negative infinity to \<open>-INF\<close>
  and the positive infinity to \<open>INF\<close>, with nothing added.
\<close>

theorem float_special_values:
  "zftoal pf FNaN width precision flags = ''NAN'' \<and>
   zftoal pf (FInf True) width precision flags = ''-INF'' \<and>
   zftoal pf (FInf False) width precision flags = ''INF'' \<and>
   zftoaf pf FNaN width precision flags = ''NAN'' \<and>
   zftoaf pf (FInf True) width precision flags = ''-INF'' \<and>
   zftoaf pf (FInf False) width precision flags = ''INF'' \<and>
   zftoa pf FNaN width precision flags = ''NAN'' \<and>
   zftoa pf (FInf True) width precision flags = ''-INF'' \<and>
   zftoa pf (FInf False) width precision flags = ''INF''"
  by (simp add: zftoa_def zftoal_def zftoaf_def zftoa_gen_def fcast_def)











































section \<open>The scratch buffer\<close>

lemma dec32_digits_0: "dec32_digits 0 = [0, 0, 0, 0, 0, 0, 0, 0, 0, 0]"
  unfolding dec32_digits_def Let_def by simp

lemma dec32_digits_1: "dec32_digits (Suc 0) = [1, 0, 0, 0, 0, 0, 0, 0, 0, 0]"
  unfolding dec32_digits_def Let_def by simp

lemma zi32toa_1_width10: "zi32toa 1 10 (flags0\<lparr>zeropad := True, exp := exp_e\<rparr>) = ''0000000001''"
  unfolding zi32toa_def Let_def
  apply (simp add: dec32_digits_1 render_eval)
  apply (simp add: numeral_eq_Suc)
  done

lemma zu32toa_0_width9: "zu32toa 0 9 (flags0\<lparr>zeropad := True\<rparr>) = ''000000000''"
  unfolding zu32toa_def Let_def
  apply (simp add: dec32_digits_0 render_eval)
  apply (simp add: numeral_eq_Suc)
  done

lemma zi32toa_0_exponent:
  "zi32toa 0 3 (flags0\<lparr>sign := always_sign, zeropad := True\<rparr>) = ''+000''"
  unfolding zi32toa_def Let_def
  apply (simp add: dec32_digits_0 render_eval)
  apply (simp add: numeral_eq_Suc)
  done

lemma zftoal_one_e:
  "zftoal lp64 (FFin False 1 0) 10 9 (flags0\<lparr>zeropad := True, exp := exp_e\<rparr>)
   = ''0000000001.000000000e+000''"
  apply (simp add: float_stages float_eval flags0_def lp64_def)
  apply (simp add: emit_float_def float_eval flags0_def zltoa_def zultoa_def zitoa_def
      zi64toa_def zu64toa_def)
  apply (simp add: zi32toa_1_width10 [unfolded flags0_def, simplified]
      zu32toa_0_width9 [unfolded flags0_def, simplified]
      zi32toa_0_exponent [unfolded flags0_def, simplified])
  done

text \<open>
  C10 (the code departs from the claim).  The scratch buffer \<open>tmp\<close> has 24 bytes, the
  size of \<open>-2147483648.-2147483648\<close> with its NUL.  For the directive \<open>%010.9e\<close> and the
  argument 1.0 the float renderer stores ten characters for the whole part, the point,
  nine fraction digits and the exponent \<open>e+000\<close>: 25 characters, 26 bytes with the NUL.
\<close>

theorem zftoal_exceeds_scratch_buffer:
  "zftoal lp64 (FFin False 1 0) 10 9 (flags0\<lparr>zeropad := True, exp := exp_e\<rparr>)
     = ''0000000001.000000000e+000'' \<and>
   23 < length (zftoal lp64 (FFin False 1 0) 10 9 (flags0\<lparr>zeropad := True, exp := exp_e\<rparr>))"
  unfolding zftoal_one_e by simp

section \<open>Scanner and assembler\<close>

lemma zloop_exit:
  "strchr src CHR ''%'' = None \<Longrightarrow> zloop pf n src st = Inr (src, st)"
  by (subst zloop.simps) simp

lemma zloop_directive:
  assumes "strchr src CHR ''%'' = Some escape"
    and "strpbrk (tl escape) spec_chars = Some spec"
  shows "zloop pf n src st =
    (case directive pf (getSubspec 31 (take (length (tl escape) - length spec) (tl escape)))
            (hd spec) (ap (put_span (take (length src - length escape) src) st)) of
       Inl e \<Rightarrow> Inl e
     | Inr (tok, ap') \<Rightarrow>
         zloop pf n (tl spec)
           (put_tok tok ((put_span (take (length src - length escape) src) st)\<lparr>ap := ap'\<rparr>)))"
  using assms by (subst zloop.simps) simp

lemma zloop_failed:
  assumes "strchr src CHR ''%'' = Some escape"
    and "strpbrk (tl escape) spec_chars = None"
    and "strchr (tl escape) CHR ''n'' = None"
  shows "zloop pf n src st =
           zloop pf n (tl escape) (put_span (take (length src - length escape) src) st)"
  using assms by (subst zloop.simps) simp

lemma zloop_failed_n:
  assumes "strchr src CHR ''%'' = Some escape"
    and "strpbrk (tl escape) spec_chars = None"
    and "strchr (tl escape) CHR ''n'' \<noteq> None"
  shows "zloop pf n src st =
    (case va_int_ptr (ap (put_span (take (length src - length escape) src) st)) of
       Inl e \<Rightarrow> Inl e
     | Inr (p, ap') \<Rightarrow>
         Inl (WildRead
           ((p, to_int pf (n - remain (put_span (take (length src - length escape) src) st)))
            # ints (put_span (take (length src - length escape) src) st))))"
  using assms by (subst zloop.simps) simp

lemma put_tok_eq: "put_tok t st = put_span t st"
  by (simp add: put_tok_def put_span_def Let_def)

lemma strchr_absent: "c \<notin> set s \<Longrightarrow> strchr s c = None"
  by (induction s) (auto simp: strchr_def)

lemma strchr_first: "c \<notin> set A \<Longrightarrow> strchr (A @ c # R) c = Some (c # R)"
  by (induction A) (auto simp: strchr_def)

lemma strpbrk_absent: "set s \<inter> set acc = {} \<Longrightarrow> strpbrk s acc = None"
  by (induction s) (auto simp: strpbrk_def)

lemma strpbrk_first:
  "set S \<inter> set acc = {} \<Longrightarrow> c \<in> set acc \<Longrightarrow> strpbrk (S @ c # R) acc = Some (c # R)"
  by (induction S) (auto simp: strpbrk_def)

lemma strpbrk_skip:
  "set F \<inter> set acc = {} \<Longrightarrow> strpbrk (F @ T) acc = strpbrk T acc"
  by (induction F) (auto simp: strpbrk_def)

lemma memcpy_append:
  "ZCOAP_MEMCPY (ZCOAP_MEMCPY m d a) (d + length a) b = ZCOAP_MEMCPY m d (a @ b)"
  by (auto simp: ZCOAP_MEMCPY_def fun_eq_iff nth_append)

lemma put_span_min:
  "put_span z s = s\<lparr>len := len s + length z, remain := remain s - min (remain s) (length z),
     mem := ZCOAP_MEMCPY (mem s) (dest s) (take (min (remain s) (length z)) z),
     dest := dest s + min (remain s) (length z)\<rparr>"
  by (simp add: put_span_def Let_def min_def)

lemma put_span_append: "put_span y (put_span x st) = put_span (x @ y) st"
proof -
  define r where "r = remain st"
  define k1 where "k1 = min r (length x)"
  define k2 where "k2 = min (r - k1) (length y)"
  define k where "k = min r (length x + length y)"
  have k: "k = k1 + k2" by (simp add: k_def k1_def k2_def)
  have la: "length (take k1 x) = k1" by (simp add: k1_def)
  have t: "take k (x @ y) = take k1 x @ take k2 y"
  proof (cases "r \<le> length x")
    case True
    then have "k = r" "k1 = r" "k2 = 0" by (simp_all add: k_def k1_def k2_def)
    with True show ?thesis by simp
  next
    case False
    then have "k1 = length x" by (simp add: k1_def)
    moreover from this have "k - length x = k2" by (simp add: k k2_def)
    moreover have "length x \<le> k" using False by (simp add: k_def)
    ultimately show ?thesis by simp
  qed
  have m: "ZCOAP_MEMCPY (ZCOAP_MEMCPY (mem st) (dest st) (take k1 x)) (dest st + k1) (take k2 y)
           = ZCOAP_MEMCPY (mem st) (dest st) (take k (x @ y))"
    using memcpy_append [of "mem st" "dest st" "take k1 x" "take k2 y"]
    by (simp only: la t)
  have 1: "put_span x st = st\<lparr>len := len st + length x, remain := r - k1,
             mem := ZCOAP_MEMCPY (mem st) (dest st) (take k1 x), dest := dest st + k1\<rparr>"
    by (simp add: put_span_min r_def k1_def)
  have 2: "put_span (x @ y) st = st\<lparr>len := len st + length (x @ y), remain := r - k,
             mem := ZCOAP_MEMCPY (mem st) (dest st) (take k (x @ y)), dest := dest st + k\<rparr>"
    by (simp add: put_span_min r_def k_def)
  show ?thesis
    unfolding 2 unfolding 1 put_span_min [of y]
    by (simp add: m k2_def [symmetric] k)
qed

lemma percent_spec: "CHR ''%'' \<in> set spec_chars"
  by (simp add: spec_chars_def)

lemma zrun_failed_directive:
  assumes "CHR ''%'' \<notin> set A" and "set R \<inter> set spec_chars = {}" and "CHR ''n'' \<notin> set R"
  shows "zrun pf n (A @ CHR ''%'' # R) st = zrun pf n (A @ R) st"
proof -
  have pr: "CHR ''%'' \<notin> set R" using assms(2) percent_spec by auto
  have e: "strchr (A @ CHR ''%'' # R) CHR ''%'' = Some (CHR ''%'' # R)"
    using assms(1) by (rule strchr_first)
  have s: "strpbrk (tl (CHR ''%'' # R)) spec_chars = None"
    using assms(2) by (simp add: strpbrk_absent)
  have nn: "strchr (tl (CHR ''%'' # R)) CHR ''n'' = None"
    using assms(3) by (simp add: strchr_absent)
  have x: "strchr R CHR ''%'' = None" using pr by (rule strchr_absent)
  have y: "strchr (A @ R) CHR ''%'' = None" using assms(1) pr by (simp add: strchr_absent)
  have "zloop pf n (A @ CHR ''%'' # R) st = zloop pf n R (put_span A st)"
    using zloop_failed [OF e s nn, of pf n st] by simp
  also have "\<dots> = Inr (R, put_span A st)" using x by (rule zloop_exit)
  finally have l: "zloop pf n (A @ CHR ''%'' # R) st = Inr (R, put_span A st)" .
  have r: "zloop pf n (A @ R) st = Inr (A @ R, st)" using y by (rule zloop_exit)
  show ?thesis
    by (simp add: zrun_def l r zfinish_def put_span_append)
qed

lemma cstr_id: "NUL \<notin> set s \<Longrightarrow> cstr s = s"
  unfolding cstr_def by (rule takeWhile_eq_all_conv [THEN iffD2]) auto

lemma NUL_neq_percent: "CHR ''%'' \<noteq> NUL"
  unfolding NUL_def by code_simp

lemma zvsnprintf_failed_directive:
  assumes "CHR ''%'' \<notin> set A" and "set R \<inter> set spec_chars = {}" and "CHR ''n'' \<notin> set R"
    and "NUL \<notin> set A \<union> set R"
  shows "zvsnprintf pf buf n (A @ CHR ''%'' # R) args = zvsnprintf pf buf n (A @ R) args"
proof -
  have "cstr (A @ CHR ''%'' # R) = A @ CHR ''%'' # R"
    using assms(4) NUL_neq_percent by (intro cstr_id) auto
  moreover have "cstr (A @ R) = A @ R" using assms(4) by (intro cstr_id) auto
  ultimately show ?thesis
    using zrun_failed_directive [OF assms(1-3)] by (simp add: zvsnprintf_def)
qed

text \<open>
  C5 (amended).  When the scanner stands before literal text \<open>A\<close> and an introducer that
  is followed, up to the end of the format string, by no conversion letter and no \<open>n\<close>,
  only the introducer is dropped: the text \<open>R\<close> behind it is copied like literal text, and
  the call returns the length and leaves the buffer of the same format without that
  introducer.  This holds from every scanner state and for the whole call.
\<close>

theorem failed_directive_drops_introducer_only:
  assumes "CHR ''%'' \<notin> set A" and "set R \<inter> set spec_chars = {}" and "CHR ''n'' \<notin> set R"
    and "NUL \<notin> set A \<union> set R"
  shows "zrun pf n (A @ CHR ''%'' # R) st = zrun pf n (A @ R) st \<and>
         zvsnprintf pf buf n (A @ CHR ''%'' # R) args = zvsnprintf pf buf n (A @ R) args"
  using zrun_failed_directive [OF assms(1-3)] zvsnprintf_failed_directive [OF assms]
  by simp

lemma ap_put_span [simp]: "ap (put_span x st) = ap st"
  by (simp add: put_span_min)

lemma put_span_ap_update: "put_span x (st\<lparr>ap := a\<rparr>) = (put_span x st)\<lparr>ap := a\<rparr>"
  by (simp add: put_span_min)

lemma assembled_ap_update [simp]: "assembled n buf t (st\<lparr>ap := a\<rparr>) = assembled n buf t st"
  by (simp add: assembled_def)

lemma put_assembled:
  assumes "assembled n buf t st"
  shows "assembled n buf (t @ x) (put_span x st)"
proof -
  have l: "length (take n t) = min n (length t)" by simp
  have "take (min (n - length t) (length x)) x = take (n - length t) x"
    by (simp add: min_def)
  then have tk: "take n t @ take (min (n - length t) (length x)) x = take n (t @ x)"
    by simp
  have "ZCOAP_MEMCPY (ZCOAP_MEMCPY buf 0 (take n t)) (0 + length (take n t))
          (take (min (n - length t) (length x)) x)
        = ZCOAP_MEMCPY buf 0 (take n t @ take (min (n - length t) (length x)) x)"
    by (rule memcpy_append)
  then have m: "ZCOAP_MEMCPY (ZCOAP_MEMCPY buf 0 (take n t)) (min n (length t))
          (take (min (n - length t) (length x)) x) = ZCOAP_MEMCPY buf 0 (take n (t @ x))"
    by (simp only: tk l add_0)
  have r: "n - length t - min (n - length t) (length x) = n - (length t + length x)"
    by arith
  have d: "min n (length t) + min (n - length t) (length x) = min n (length t + length x)"
    by arith
  show ?thesis
    using assms unfolding assembled_def put_span_min
    by (simp add: m r d)
qed

lemma assembled_init:
  "assembled n buf [] \<lparr>remain = n, len = 0, dest = 0, mem = buf, ap = args, ints = []\<rparr>"
  by (simp add: assembled_def ZCOAP_MEMCPY_def)

lemma zloop_text:
  "assembled n buf pre st \<Longrightarrow> ztext pf src (ap st) = Some t \<Longrightarrow>
   \<exists>rest st'. zloop pf n src st = Inr (rest, st') \<and> assembled n buf (pre @ t) (put_span rest st')"
proof (induction pf n src st arbitrary: pre t rule: zloop.induct)
  case (1 pf n src st)
  show ?case
  proof (cases "strchr src CHR ''%''")
    case None
    then have "t = src" using "1.prems"(2) by (subst (asm) ztext.simps) simp
    moreover have "zloop pf n src st = Inr (src, st)" using None by (rule zloop_exit)
    ultimately show ?thesis using put_assembled [OF "1.prems"(1)] by simp
  next
    case (Some escape)
    let ?lit = "take (length src - length escape) src"
    let ?st1 = "put_span ?lit st"
    have a1: "assembled n buf (pre @ ?lit) ?st1" using "1.prems"(1) by (rule put_assembled)
    show ?thesis
    proof (cases "strpbrk (tl escape) spec_chars")
      case None
      show ?thesis
      proof (cases "strchr (tl escape) CHR ''n'' = None")
        case True
        from "1.prems"(2) Some None True obtain t' where
          t': "ztext pf (tl escape) (ap st) = Some t'" and t: "t = ?lit @ t'"
          by (subst (asm) ztext.simps) (auto split: option.splits)
        have "ztext pf (tl escape) (ap ?st1) = Some t'" using t' by simp
        from "1.IH"(1) [OF Some None _ a1 this] True obtain rest st' where
          "zloop pf n (tl escape) ?st1 = Inr (rest, st')"
          "assembled n buf ((pre @ ?lit) @ t') (put_span rest st')" by auto
        then show ?thesis using zloop_failed [OF Some None True, of pf n st] t by auto
      next
        case False
        with "1.prems"(2) Some None show ?thesis
          by (subst (asm) ztext.simps) simp
      qed
    next
      case (Some spec)
      note sp = this
      let ?sub = "getSubspec 31 (take (length (tl escape) - length spec) (tl escape))"
      from "1.prems"(2) \<open>strchr src CHR ''%'' = Some escape\<close> sp obtain tok args' t' where
        d: "directive pf ?sub (hd spec) (ap st) = Inr (tok, args')"
        and t': "ztext pf (tl spec) args' = Some t'" and t: "t = ?lit @ tok @ t'"
        by (subst (asm) ztext.simps) (auto split: option.splits sum.splits)
      let ?st2 = "put_tok tok (?st1\<lparr>ap := args'\<rparr>)"
      have d1: "directive pf ?sub (hd spec) (ap ?st1) = Inr (tok, args')" using d by simp
      have a2: "assembled n buf ((pre @ ?lit) @ tok) ?st2"
        using put_assembled [OF a1, of tok] by (simp add: put_tok_eq put_span_ap_update)
      have "ztext pf (tl spec) (ap ?st2) = Some t'" using t' by (simp add: put_tok_eq)
      from "1.IH"(2) [OF \<open>strchr src CHR ''%'' = Some escape\<close> sp d1 refl a2 this]
      obtain rest st' where
        "zloop pf n (tl spec) ?st2 = Inr (rest, st')"
        "assembled n buf (((pre @ ?lit) @ tok) @ t') (put_span rest st')" by auto
      then show ?thesis
        using zloop_directive [OF \<open>strchr src CHR ''%'' = Some escape\<close> sp, of pf n st] d1 t
        by auto
    qed
  qed
qed

lemma zfinish_assembled:
  assumes "assembled n buf text (put_span rest st')"
  shows "zfinish n rest st' =
          (length text,
           if n - length text \<noteq> 0 then (ZCOAP_MEMCPY buf 0 (take n text))(min n (length text) := NUL)
           else if n \<noteq> 0 then (ZCOAP_MEMCPY buf 0 (take n text))(n - 1 := NUL)
           else ZCOAP_MEMCPY buf 0 (take n text))"
  using assms by (simp add: zfinish_def assembled_def Let_def)

text \<open>
  The assembler.  Let \<open>text\<close> be the logical text of the format and the arguments; it
  exists when every directive delivers its token, which a directive that renders into
  \<open>tmp\<close> does only on a build that keeps \<open>tmp\<close> in place.  Then for every capacity \<open>n\<close>
  and every destination memory, \<open>zvsnprintf\<close> and \<open>zsnprintf\<close> return the length of
  \<open>text\<close>; no byte at or behind offset \<open>n\<close> is changed, so nothing at all is written
  when \<open>n\<close> is 0; when \<open>n\<close> is positive the destination holds the first
  \<open>min (n - 1) (length text)\<close> characters of \<open>text\<close> followed by a NUL, which lies within
  the \<open>n\<close> bytes also when the text has \<open>n\<close> characters or more.
\<close>

lemma zvsnprintf_assembles_text:
  assumes "ztext pf (cstr fmt) args = Some text"
  shows "\<exists>buf'. zvsnprintf pf buf n fmt args = Inr (length text, buf') \<and>
           zsnprintf pf buf n fmt args = Inr (length text, buf') \<and>
           (\<forall>i. n \<le> i \<longrightarrow> buf' i = buf i) \<and>
           (n = 0 \<longrightarrow> buf' = buf) \<and>
           (0 < n \<longrightarrow> buf' (min (n - 1) (length text)) = NUL \<and>
                       (\<forall>i < min (n - 1) (length text). buf' i = text ! i))"
proof -
  let ?st0 = "\<lparr>remain = n, len = 0, dest = 0, mem = buf, ap = args, ints = []\<rparr>"
  let ?m = "ZCOAP_MEMCPY buf 0 (take n text)"
  let ?b = "if n - length text \<noteq> 0 then ?m(min n (length text) := NUL)
            else if n \<noteq> 0 then ?m(n - 1 := NUL) else ?m"
  have "ztext pf (cstr fmt) (ap ?st0) = Some text" using assms by simp
  from zloop_text [OF assembled_init this] obtain rest st' where
    l: "zloop pf n (cstr fmt) ?st0 = Inr (rest, st')"
    and a: "assembled n buf text (put_span rest st')" by auto
  have z: "zvsnprintf pf buf n fmt args = Inr (length text, ?b)"
    unfolding zvsnprintf_def zrun_def l using zfinish_assembled [OF a] by simp
  have out: "\<forall>i. n \<le> i \<longrightarrow> ?b i = buf i"
    by (auto simp: ZCOAP_MEMCPY_def)
  have zero: "n = 0 \<longrightarrow> ?b = buf"
    by (auto simp: ZCOAP_MEMCPY_def fun_eq_iff)
  have nul: "0 < n \<longrightarrow> ?b (min (n - 1) (length text)) = NUL"
    by (auto simp: min_def)
  have pre: "0 < n \<longrightarrow> (\<forall>i < min (n - 1) (length text). ?b i = text ! i)"
    by (auto simp: ZCOAP_MEMCPY_def)
  show ?thesis
    using z out zero nul pre unfolding zsnprintf_def by blast
qed

lemma ztext_exit: "strchr src CHR ''%'' = None \<Longrightarrow> ztext pf src args = Some src"
  by (subst ztext.simps) simp

lemma ztext_directive:
  assumes "strchr src CHR ''%'' = Some escape"
    and "strpbrk (tl escape) spec_chars = Some spec"
    and "directive pf (getSubspec 31 (take (length (tl escape) - length spec) (tl escape)))
           (hd spec) args = Inr (tok, args')"
    and "ztext pf (tl spec) args' = Some t"
  shows "ztext pf src args = Some (take (length src - length escape) src @ tok @ t)"
  using assms by (subst ztext.simps) simp

lemma NUL_neq_ab: "CHR ''a'' \<noteq> NUL" "CHR ''b'' \<noteq> NUL" "CHR ''c'' \<noteq> NUL"
  "CHR ''1'' \<noteq> NUL" "CHR ''2'' \<noteq> NUL" "CHR ''n'' \<noteq> NUL" "CHR ''d'' \<noteq> NUL"
  "CHR ''.'' \<noteq> NUL" "CHR ''*'' \<noteq> NUL" "CHR ''-'' \<noteq> NUL" "CHR ''l'' \<noteq> NUL"
  unfolding NUL_def by code_simp+

lemmas parse_eval = getSubspec_def getFlags_def cap_flags_def getWidth_def getPrecision_def getLength_def
  strtol_def strchr_def strpbrk_def isspace_def isdigit_def to_unsigned_def int_bits_def
  long_bits_def ARG_SPECIFIED_def PRECISION_UNSPECIFIED_def lp64_def bind_def

lemma directive_percent: "directive lp64 [] CHR ''%'' args = Inr (''%'', args)"
  by (simp add: directive_def parse_eval convert_def)

lemma ztext_ab_percent: "ztext lp64 (cstr ''ab%%'') [] = Some ''ab%''"
proof -
  have c: "cstr ''ab%%'' = ''ab%%''" by (simp add: cstr_def NUL_neq_ab NUL_neq_percent)
  have 1: "strchr ''ab%%'' CHR ''%'' = Some ''%%''" by (simp add: strchr_def)
  have 2: "strpbrk (tl ''%%'') spec_chars = Some ''%''" by (simp add: strpbrk_def spec_chars_def)
  have 3: "directive lp64 (getSubspec 31 (take (length (tl ''%%'') - length ''%'') (tl ''%%'')))
             (hd ''%'') [] = Inr (''%'', [])"
    by (simp add: getSubspec_def directive_percent)
  have 4: "ztext lp64 (tl ''%'') [] = Some []" by (simp add: ztext_exit strchr_def)
  show ?thesis unfolding c using ztext_directive [OF 1 2 3 4] by simp
qed

lemma upt5: "[0..<5] = [0, 1, 2, 3, 4 :: nat]"
  by (simp add: upt_rec)

lemma zvsnprintf_plain_ab12:
  "outcome (zvsnprintf lp64 blank 8 ''ab12'' []) 5 = Some (4, ''ab12'' @ [NUL])"
proof -
  have c: "cstr ''ab12'' = ''ab12''" by (simp add: cstr_def NUL_neq_ab)
  have 1: "strchr ''ab12'' CHR ''%'' = None" by (simp add: strchr_def)
  show ?thesis
    unfolding zvsnprintf_def zrun_def c zloop_exit [OF 1]
    by (simp add: outcome_def zfinish_def put_span_def Let_def ZCOAP_MEMCPY_def upt5)
qed

lemma ab12_hyps:
  "CHR ''%'' \<notin> set ''ab''" "set ''12'' \<inter> set spec_chars = {}" "CHR ''n'' \<notin> set ''12''"
  "NUL \<notin> set ''ab'' \<union> set ''12''"
  by (simp_all add: spec_chars_def NUL_neq_ab [symmetric])

text \<open>
  C5 (as stated, refuted).  In \<open>ab%12\<close> no conversion letter follows the introducer.  The
  claim says that the introducer and the text \<open>12\<close> behind it are dropped; the call
  returns 4 and the buffer holds \<open>ab12\<close>.
\<close>

theorem failed_directive_text_is_copied:
  "outcome (zvsnprintf lp64 blank 8 ''ab%12'' []) 5 = Some (4, ''ab12'' @ [NUL])"
  using zvsnprintf_failed_directive [OF ab12_hyps, of lp64 blank 8 "[]"] zvsnprintf_plain_ab12
  by simp

text \<open>An instance of the amended C5, for the format \<open>ab%12\<close>.\<close>

theorem failed_directive_drops_introducer_only_witness:
  "CHR ''%'' \<notin> set ''ab'' \<and> set ''12'' \<inter> set spec_chars = {} \<and> CHR ''n'' \<notin> set ''12'' \<and>
   NUL \<notin> set ''ab'' \<union> set ''12'' \<and>
   zrun lp64 8 (''ab'' @ CHR ''%'' # ''12'')
       \<lparr>remain = 8, len = 0, dest = 0, mem = blank, ap = [], ints = []\<rparr>
     = zrun lp64 8 (''ab'' @ ''12'')
       \<lparr>remain = 8, len = 0, dest = 0, mem = blank, ap = [], ints = []\<rparr> \<and>
   zvsnprintf lp64 blank 8 (''ab'' @ CHR ''%'' # ''12'') []
     = zvsnprintf lp64 blank 8 (''ab'' @ ''12'') []"
  using failed_directive_drops_introducer_only [OF ab12_hyps,
      of lp64 8 "\<lparr>remain = 8, len = 0, dest = 0, mem = blank, ap = [], ints = []\<rparr>" blank "[]"]
    ab12_hyps
  by simp

section \<open>The count directive\<close>

lemma zvsnprintf_abc_n:
  "zvsnprintf lp64 blank 8 ''abc%n'' [AIntPtr 0] = Inl (WildRead [(0, 3)])"
proof -
  have c: "cstr ''abc%n'' = ''abc%n''" by (simp add: cstr_def NUL_neq_ab NUL_neq_percent)
  have 1: "strchr ''abc%n'' CHR ''%'' = Some ''%n''" by (simp add: strchr_def)
  have 2: "strpbrk (tl ''%n'') spec_chars = None" by (simp add: strpbrk_def spec_chars_def)
  have 3: "strchr (tl ''%n'') CHR ''n'' \<noteq> None" by (simp add: strchr_def)
  show ?thesis
    unfolding zvsnprintf_def zrun_def c
    by (simp add: zloop_failed_n [OF 1 2 3] put_span_def to_int_def int_bits_def lp64_def Let_def)
qed

text \<open>
  C6 (the code departs from the claim).  For \<open>abc%n\<close> the scanner finds no conversion
  letter and then the character \<open>n\<close>: it writes the count 3 through the \<open>int\<close> pointer,
  but it has set \<open>src\<close> to \<open>spec + 1\<close> with \<open>spec\<close> null, and the next \<open>strchr(src, '%')\<close>
  reads from that address instead of resuming in the format string.
\<close>

theorem percent_n_reads_invalid_pointer:
  "zvsnprintf lp64 blank 8 ''abc%n'' [AIntPtr 0] = Inl (WildRead [(0, 3)])"
  by (rule zvsnprintf_abc_n)

section \<open>The inert flags\<close>

lemma inert_eq_refl [simp]: "inert_eq a a"
  by (simp add: inert_eq_def)

lemma inert_eq_sym: "inert_eq a b \<Longrightarrow> inert_eq b a"
  by (simp add: inert_eq_def)

lemma addSign_inert: "inert_eq a b \<Longrightarrow> addSign neg a = addSign neg b"
  by (simp add: addSign_def inert_eq_def)

lemma pad_signed_inert: "inert_eq a b \<Longrightarrow> pad_signed cap neg w fd a = pad_signed cap neg w fd b"
  by (simp add: pad_signed_def inert_eq_def addSign_def)

lemma pad_unsigned_inert: "inert_eq a b \<Longrightarrow> pad_unsigned cap w fd a = pad_unsigned cap w fd b"
  by (simp add: pad_unsigned_def inert_eq_def)

lemma zi16toa_inert: "inert_eq a b \<Longrightarrow> zi16toa n w a = zi16toa n w b"
  unfolding zi16toa_def Let_def by (simp add: pad_signed_inert [of a b])

lemma zu16toa_inert: "inert_eq a b \<Longrightarrow> zu16toa n w a = zu16toa n w b"
  unfolding zu16toa_def Let_def by (simp add: pad_unsigned_inert [of a b])

lemma zi32toa_inert: "inert_eq a b \<Longrightarrow> zi32toa n w a = zi32toa n w b"
  unfolding zi32toa_def Let_def by (simp add: pad_signed_inert [of a b])

lemma zu32toa_inert: "inert_eq a b \<Longrightarrow> zu32toa n w a = zu32toa n w b"
  unfolding zu32toa_def Let_def by (simp add: pad_unsigned_inert [of a b])

lemma zi64toa_inert: "inert_eq a b \<Longrightarrow> zi64toa n w a = zi64toa n w b"
  unfolding zi64toa_def Let_def
  by (simp add: pad_signed_inert [of a b] zi32toa_inert [of a b] split: prod.splits)

lemma zu64toa_inert: "inert_eq a b \<Longrightarrow> zu64toa n w a = zu64toa n w b"
  unfolding zu64toa_def Let_def
  by (simp add: pad_unsigned_inert [of a b] zu32toa_inert [of a b] split: prod.splits)

lemma zx64toa_inert: "inert_eq a b \<Longrightarrow> zx64toa sz n w a up = zx64toa sz n w b up"
  unfolding zx64toa_def Let_def by (simp add: pad_unsigned_inert [of a b])

lemma zo64toa_inert: "inert_eq a b \<Longrightarrow> zo64toa sz n w a = zo64toa sz n w b"
  unfolding zo64toa_def Let_def by (simp add: pad_unsigned_inert [of a b])

lemma zitoa_inert: "inert_eq a b \<Longrightarrow> zitoa pf v w a = zitoa pf v w b"
  by (simp add: zitoa_def zi16toa_inert [of a b] zi32toa_inert [of a b] zi64toa_inert [of a b]
      split: int_size_t.splits)

lemma zutoa_inert: "inert_eq a b \<Longrightarrow> zutoa pf v w a = zutoa pf v w b"
  by (simp add: zutoa_def zu16toa_inert [of a b] zu32toa_inert [of a b] zu64toa_inert [of a b]
      split: int_size_t.splits)

lemma zltoa_inert: "inert_eq a b \<Longrightarrow> zltoa pf v w a = zltoa pf v w b"
  by (simp add: zltoa_def zi32toa_inert [of a b] zi64toa_inert [of a b])

lemma zultoa_inert: "inert_eq a b \<Longrightarrow> zultoa pf v w a = zultoa pf v w b"
  by (simp add: zultoa_def zu32toa_inert [of a b] zu64toa_inert [of a b])

lemma force_exp_inert: "inert_eq a b \<Longrightarrow> inert_eq (force_exp p f a) (force_exp p f b)"
  by (simp add: force_exp_def inert_eq_def)

lemma normalise_inert: "inert_eq a b \<Longrightarrow> normalise pf p f a = normalise pf p f b"
  by (simp add: normalise_def inert_eq_def)

lemma round_whole_inert:
  "inert_eq a b \<Longrightarrow> round_whole pf p f e pr a = round_whole pf p f e pr b"
  by (simp add: round_whole_def inert_eq_def)

lemma emit_float_inert:
  assumes "inert_eq a b"
  shows "emit_float pf p expw f r wh e w pr a = emit_float pf p expw f r wh e w pr b"
proof -
  let ?fa = "if wh = 0 \<and> signbit f then a\<lparr>sign := auto_sign\<rparr> else a"
  let ?fb = "if wh = 0 \<and> signbit f then b\<lparr>sign := auto_sign\<rparr> else b"
  have i: "inert_eq ?fa ?fb" using assms by (simp add: inert_eq_def)
  have e: "exp ?fa = exp ?fb" using i by (simp add: inert_eq_def)
  show ?thesis
    unfolding emit_float_def Let_def
    by (simp only: zltoa_inert [OF i] zitoa_inert [OF i] e)
qed

lemma zftoa_fin_inert:
  assumes "inert_eq a b"
  shows "zftoa_fin pf p expw f w pr a = zftoa_fin pf p expw f w pr b"
proof -
  have i: "inert_eq (force_exp p f a) (force_exp p f b)" using assms by (rule force_exp_inert)
  show ?thesis
    unfolding zftoa_fin_def
    by (simp add: normalise_inert [OF i] round_whole_inert [OF i] emit_float_inert [OF i]
        split: prod.splits)
qed

lemma zftoa_gen_inert:
  "inert_eq a b \<Longrightarrow> zftoa_gen pf p expw f w pr a = zftoa_gen pf p expw f w pr b"
  by (simp add: zftoa_gen_def zftoa_fin_inert [of a b])

lemma zftoal_inert: "inert_eq a b \<Longrightarrow> zftoal pf f w pr a = zftoal pf f w pr b"
  by (simp add: zftoal_def zftoa_gen_inert [of a b])

lemma zftoaf_inert: "inert_eq a b \<Longrightarrow> zftoaf pf f w pr a = zftoaf pf f w pr b"
  by (simp add: zftoaf_def zftoa_gen_inert [of a b])

lemma zftoa_inert: "inert_eq a b \<Longrightarrow> zftoa pf f w pr a = zftoa pf f w pr b"
  by (simp add: zftoa_def zftoal_inert [of a b] zftoaf_inert [of a b])

lemma float_exp_inert:
  "inert_eq a b \<Longrightarrow> inert_eq (float_exp pf spec v a) (float_exp pf spec v b)"
  by (simp add: float_exp_def inert_eq_def)

lemma render_int_inert:
  assumes "inert_eq a b"
    and "\<And>v w. sr v w a = sr v w b" and "\<And>v w. ur v w a = ur v w b"
  shows "render_int pf spec sz sr ur v w a = render_int pf spec sz sr ur v w b"
  using assms by (simp add: render_int_def zx64toa_inert [of a b] zo64toa_inert [of a b])

lemma int_conv_inert:
  assumes "inert_eq a b"
  shows "int_conv pf spec a w l args = int_conv pf spec b w l args"
proof -
  have 1: "render_int pf spec sz (zitoa pf) (zutoa pf) v w a
         = render_int pf spec sz (zitoa pf) (zutoa pf) v w b" for sz v
    by (rule render_int_inert [OF assms]) (simp_all add: zitoa_inert [OF assms] zutoa_inert [OF assms])
  have 2: "render_int pf spec sz (zltoa pf) (zultoa pf) v w a
         = render_int pf spec sz (zltoa pf) (zultoa pf) v w b" for sz v
    by (rule render_int_inert [OF assms]) (simp_all add: zltoa_inert [OF assms] zultoa_inert [OF assms])
  have 3: "render_int pf spec sz (\<lambda>x. zi64toa (word_of_int x)) (\<lambda>x. zu64toa (word_of_int x)) v w a
         = render_int pf spec sz (\<lambda>x. zi64toa (word_of_int x)) (\<lambda>x. zu64toa (word_of_int x)) v w b"
    for sz v
    by (rule render_int_inert [OF assms]) (simp_all add: zi64toa_inert [OF assms] zu64toa_inert [OF assms])
  show ?thesis
    unfolding int_conv_def by (simp only: 1 2 3)
qed

lemma float_conv_inert:
  assumes "inert_eq a b"
  shows "float_conv pf spec a w pr l args = float_conv pf spec b w pr l args"
proof -
  have i: "inert_eq (float_exp pf spec v a) (float_exp pf spec v b)" for v
    using assms by (rule float_exp_inert)
  show ?thesis
    unfolding float_conv_def Let_def by (simp only: zftoal_inert [OF i] zftoa_inert [OF i])
qed

lemma convert_inert:
  assumes "inert_eq a b"
  shows "convert pf spec a w pr l args = convert pf spec b w pr l args"
  unfolding convert_def
  by (simp only: int_conv_inert [OF assms] float_conv_inert [OF assms] zx64toa_inert [OF assms])

lemma strpbrk_hd:
  "c \<in> set acc \<Longrightarrow> strpbrk (c # cs) acc = Some (c # cs)"
  by (simp add: strpbrk_def)

lemma apply_flag_inert:
  "inert_eq a b \<Longrightarrow> inert_eq (apply_flag c a) (apply_flag c b)"
  by (simp add: apply_flag_def inert_eq_def)

lemma apply_flag_inert_char:
  "c = CHR ''-'' \<or> c = CHR ''#'' \<Longrightarrow> inert_eq (apply_flag c a) a"
  by (auto simp: apply_flag_def inert_eq_def)

lemma foldl_apply_flag_inert:
  "inert_eq a b \<Longrightarrow>
   inert_eq (foldl (\<lambda>fl c. apply_flag c fl) a F) (foldl (\<lambda>fl c. apply_flag c fl) b F)"
  by (induction F arbitrary: a b) (simp_all add: apply_flag_inert)

lemma flags_loop_prefix:
  "set F \<subseteq> set ''0-+ #'' \<Longrightarrow>
   flags_loop (F @ X) fl k = flags_loop X (foldl (\<lambda>fl c. apply_flag c fl) fl F) (k + length F)"
proof (induction F arbitrary: fl k)
  case Nil
  then show ?case by simp
next
  case (Cons c F)
  then have c: "c \<in> set ''0-+ #''" and F: "set F \<subseteq> set ''0-+ #''" by auto
  have "strpbrk (c # F @ X) ''0-+ #'' = Some (c # F @ X)" using c by (rule strpbrk_hd)
  then show ?case using Cons.IH [OF F] by simp
qed

lemma flags_loop_inert:
  "inert_eq a b \<Longrightarrow>
   \<exists>m a' b'. flags_loop X a k = (a', k + m) \<and> flags_loop X b j = (b', j + m) \<and> inert_eq a' b'"
proof (induction X arbitrary: a b k j)
  case Nil
  then show ?case by (intro exI [of _ 0]) simp
next
  case (Cons c cs)
  show ?case
  proof (cases "strpbrk (c # cs) ''0-+ #''")
    case None
    then show ?thesis using Cons.prems by (intro exI [of _ 0]) simp
  next
    case (Some flag)
    have "inert_eq (apply_flag (hd flag) a) (apply_flag (hd flag) b)"
      using Cons.prems by (rule apply_flag_inert)
    from Cons.IH [OF this, of "Suc k" "Suc j"] obtain m a' b' where
      "flags_loop cs (apply_flag (hd flag) a) (Suc k) = (a', Suc k + m)"
      "flags_loop cs (apply_flag (hd flag) b) (Suc j) = (b', Suc j + m)"
      "inert_eq a' b'" by blast
    then show ?thesis using Some by (intro exI [of _ "Suc m"]) simp
  qed
qed

lemma cap_flags_prefix:
  assumes "set F \<inter> set ''.123456789'' = {}"
  shows "cap_flags (F @ T) = F @ cap_flags T"
proof -
  have s: "strpbrk (F @ T) ''.123456789'' = strpbrk T ''.123456789''"
    using assms by (rule strpbrk_skip)
  show ?thesis
  proof (cases "strpbrk T ''.123456789''")
    case None
    then show ?thesis using s by (simp add: cap_flags_def)
  next
    case (Some e)
    then have "e = dropWhile (\<lambda>x. x \<notin> set ''.123456789'') T"
      by (simp add: strpbrk_def split: list.splits)
    then have "length e \<le> length T" by (simp add: length_dropWhile_le)
    then show ?thesis using s Some by (simp add: cap_flags_def)
  qed
qed

lemma getFlags_flag_prefix:
  assumes "set F \<subseteq> set ''0-+ #''"
    and "flags_loop (cap_flags T) (foldl (\<lambda>fl c. apply_flag c fl) flags0 F) (length F)
         = (a, length F + m)"
  shows "getFlags (F @ T) = (a, drop m T)"
proof -
  have d: "set F \<inter> set ''.123456789'' = {}" using assms(1) by auto
  have "flags_loop (F @ cap_flags T) flags0 0
        = flags_loop (cap_flags T) (foldl (\<lambda>fl c. apply_flag c fl) flags0 F) (0 + length F)"
    using assms(1) by (rule flags_loop_prefix)
  then show ?thesis
    using assms(2) by (simp add: getFlags_def cap_flags_prefix [OF d])
qed

lemma getFlags_inert_insert:
  assumes "set F1 \<subseteq> set ''0-+ #''" and "set F2 \<subseteq> set ''0-+ #''"
    and "c = CHR ''-'' \<or> c = CHR ''#''"
  shows "\<exists>fl1 fl2 e. getFlags (F1 @ c # F2 @ T) = (fl1, e) \<and> getFlags (F1 @ F2 @ T) = (fl2, e) \<and>
           inert_eq fl1 fl2"
proof -
  let ?ap = "\<lambda>fl c. apply_flag c fl"
  have cf: "c \<in> set ''0-+ #''" using assms(3) by auto
  let ?fa = "foldl ?ap flags0 (F1 @ c # F2)"
  let ?fb = "foldl ?ap flags0 (F1 @ F2)"
  have s1: "set (F1 @ c # F2) \<subseteq> set ''0-+ #''" using assms(1,2) cf by auto
  have s2: "set (F1 @ F2) \<subseteq> set ''0-+ #''" using assms(1,2) by auto
  have "inert_eq (apply_flag c (foldl ?ap flags0 F1)) (foldl ?ap flags0 F1)"
    using assms(3) by (rule apply_flag_inert_char)
  then have "inert_eq (foldl ?ap (apply_flag c (foldl ?ap flags0 F1)) F2)
                      (foldl ?ap (foldl ?ap flags0 F1) F2)"
    by (rule foldl_apply_flag_inert)
  then have i: "inert_eq ?fa ?fb" by simp
  from flags_loop_inert [OF i, of "cap_flags T" "length (F1 @ c # F2)" "length (F1 @ F2)"]
  obtain m a' b' where
    r1: "flags_loop (cap_flags T) ?fa (length (F1 @ c # F2)) = (a', length (F1 @ c # F2) + m)"
    and r2: "flags_loop (cap_flags T) ?fb (length (F1 @ F2)) = (b', length (F1 @ F2) + m)"
    and i': "inert_eq a' b'" by blast
  have g1: "getFlags ((F1 @ c # F2) @ T) = (a', drop m T)"
    using s1 r1 by (rule getFlags_flag_prefix)
  have g2: "getFlags ((F1 @ F2) @ T) = (b', drop m T)"
    using s2 r2 by (rule getFlags_flag_prefix)
  show ?thesis using g1 g2 i' by auto
qed

lemma convert_inert_fun:
  "inert_eq a b \<Longrightarrow> convert pf spec a w pr l = convert pf spec b w pr l"
  by (rule ext) (rule convert_inert)

lemma directive_inert_insert:
  assumes "set F1 \<subseteq> set ''0-+ #''" and "set F2 \<subseteq> set ''0-+ #''"
    and "c = CHR ''-'' \<or> c = CHR ''#''"
  shows "directive pf (F1 @ c # F2 @ T) sp args = directive pf (F1 @ F2 @ T) sp args"
proof -
  from getFlags_inert_insert [OF assms, of T] obtain fl1 fl2 e where
    g1: "getFlags (F1 @ c # F2 @ T) = (fl1, e)" and g2: "getFlags (F1 @ F2 @ T) = (fl2, e)"
    and i: "inert_eq fl1 fl2" by blast
  show ?thesis
    unfolding directive_def g1 g2 by (simp only: prod.case convert_inert_fun [OF i])
qed

lemma flag_chars_not_spec: "set F \<subseteq> set ''0-+ #'' \<Longrightarrow> set F \<inter> set spec_chars = {}"
  by (auto simp: spec_chars_def)

lemma getSubspec_short: "length U < 31 \<Longrightarrow> getSubspec 31 U = U"
  by (simp add: getSubspec_def)

lemma zloop_directive_parts:
  assumes "strchr src CHR ''%'' = Some escape"
    and "strpbrk (tl escape) spec_chars = Some spec"
    and "lit = take (length src - length escape) src"
    and "sub = getSubspec 31 (take (length (tl escape) - length spec) (tl escape))"
    and "sp = hd spec" and "R = tl spec"
  shows "zloop pf n src st =
    (case directive pf sub sp (ap st) of
       Inl e \<Rightarrow> Inl e
     | Inr (tok, ap') \<Rightarrow> zloop pf n R (put_tok tok ((put_span lit st)\<lparr>ap := ap'\<rparr>)))"
  unfolding assms(3-6) using zloop_directive [OF assms(1,2), of pf n st]
  by (simp only: ap_put_span)

lemma zloop_valid_directive:
  assumes "CHR ''%'' \<notin> set A" and "set U \<inter> set spec_chars = {}" and "sp \<in> set spec_chars"
    and "length U < 31"
  shows "zloop pf n (A @ CHR ''%'' # U @ sp # R) st =
    (case directive pf U sp (ap st) of
       Inl e \<Rightarrow> Inl e
     | Inr (tok, ap') \<Rightarrow> zloop pf n R (put_tok tok ((put_span A st)\<lparr>ap := ap'\<rparr>)))"
proof -
  have e: "strchr (A @ CHR ''%'' # U @ sp # R) CHR ''%'' = Some (CHR ''%'' # U @ sp # R)"
    using assms(1) by (rule strchr_first)
  have s: "strpbrk (tl (CHR ''%'' # U @ sp # R)) spec_chars = Some (sp # R)"
    using assms(2,3) by (simp add: strpbrk_first)
  show ?thesis
    by (rule zloop_directive_parts [OF e s]) (simp_all add: getSubspec_short [OF assms(4)])
qed

lemma zrun_inert_insert:
  assumes "CHR ''%'' \<notin> set A"
    and "set F1 \<subseteq> set ''0-+ #''" and "set F2 \<subseteq> set ''0-+ #''"
    and "c = CHR ''-'' \<or> c = CHR ''#''"
    and "set S \<inter> set spec_chars = {}" and "sp \<in> set spec_chars"
    and "length (F1 @ c # F2 @ S) < 31"
  shows "zrun pf n (A @ CHR ''%'' # F1 @ c # F2 @ S @ sp # R) st
       = zrun pf n (A @ CHR ''%'' # F1 @ F2 @ S @ sp # R) st"
proof -
  have cs: "c \<notin> set spec_chars" using assms(4) by (auto simp: spec_chars_def)
  have u1: "set (F1 @ c # F2 @ S) \<inter> set spec_chars = {}"
    using flag_chars_not_spec [OF assms(2)] flag_chars_not_spec [OF assms(3)] assms(5) cs by auto
  have u2: "set (F1 @ F2 @ S) \<inter> set spec_chars = {}"
    using flag_chars_not_spec [OF assms(2)] flag_chars_not_spec [OF assms(3)] assms(5) by auto
  have l2: "length (F1 @ F2 @ S) < 31" using assms(7) by simp
  have d: "directive pf (F1 @ c # F2 @ S) sp (ap st) = directive pf (F1 @ F2 @ S) sp (ap st)"
    using assms(2,3,4) by (rule directive_inert_insert)
  have "zloop pf n (A @ CHR ''%'' # (F1 @ c # F2 @ S) @ sp # R) st
      = zloop pf n (A @ CHR ''%'' # (F1 @ F2 @ S) @ sp # R) st"
    unfolding zloop_valid_directive [OF assms(1) u1 assms(6) assms(7)]
      zloop_valid_directive [OF assms(1) u2 assms(6) l2] d ..
  then show ?thesis by (simp add: zrun_def)
qed

lemma NUL_not_spec: "NUL \<notin> set spec_chars"
  unfolding NUL_def spec_chars_def by code_simp

lemma NUL_not_flag: "NUL \<notin> set ''0-+ #''"
  unfolding NUL_def by code_simp

lemma zvsnprintf_inert_insert:
  assumes "CHR ''%'' \<notin> set A"
    and "set F1 \<subseteq> set ''0-+ #''" and "set F2 \<subseteq> set ''0-+ #''"
    and "c = CHR ''-'' \<or> c = CHR ''#''"
    and "set S \<inter> set spec_chars = {}" and "sp \<in> set spec_chars"
    and "length (F1 @ c # F2 @ S) < 31"
    and "NUL \<notin> set A \<union> set S \<union> set R"
  shows "zvsnprintf pf buf n (A @ CHR ''%'' # F1 @ c # F2 @ S @ sp # R) args
       = zvsnprintf pf buf n (A @ CHR ''%'' # F1 @ F2 @ S @ sp # R) args"
proof -
  have f1: "NUL \<notin> set F1" using assms(2) NUL_not_flag by blast
  have f2: "NUL \<notin> set F2" using assms(3) NUL_not_flag by blast
  have c: "c \<noteq> NUL" using assms(4) NUL_not_flag by auto
  have sp: "sp \<noteq> NUL" using assms(6) NUL_not_spec by auto
  have "cstr (A @ CHR ''%'' # F1 @ c # F2 @ S @ sp # R) = A @ CHR ''%'' # F1 @ c # F2 @ S @ sp # R"
    using assms(8) f1 f2 c sp NUL_neq_percent by (intro cstr_id) auto
  moreover have "cstr (A @ CHR ''%'' # F1 @ F2 @ S @ sp # R) = A @ CHR ''%'' # F1 @ F2 @ S @ sp # R"
    using assms(8) f1 f2 sp NUL_neq_percent by (intro cstr_id) auto
  ultimately show ?thesis
    using zrun_inert_insert [OF assms(1-7)] by (simp add: zvsnprintf_def)
qed

text \<open>
  C7 (amended).  In a directive with a conversion letter whose subspec has at most 30
  characters, a \<open>-\<close> or \<open>#\<close> inserted among the flag characters at the start of the
  subspec (before any width, precision or length modifier) changes neither the returned
  length nor the buffer: the run with the character is the run without it, from every
  scanner state and for the whole call.
\<close>

theorem inert_flags_have_no_effect:
  assumes "CHR ''%'' \<notin> set A"
    and "set F1 \<subseteq> set ''0-+ #''" and "set F2 \<subseteq> set ''0-+ #''"
    and "c = CHR ''-'' \<or> c = CHR ''#''"
    and "set S \<inter> set spec_chars = {}" and "sp \<in> set spec_chars"
    and "length (F1 @ c # F2 @ S) < 31"
    and "NUL \<notin> set A \<union> set S \<union> set R"
  shows "zrun pf n (A @ CHR ''%'' # F1 @ c # F2 @ S @ sp # R) st
           = zrun pf n (A @ CHR ''%'' # F1 @ F2 @ S @ sp # R) st \<and>
         zvsnprintf pf buf n (A @ CHR ''%'' # F1 @ c # F2 @ S @ sp # R) args
           = zvsnprintf pf buf n (A @ CHR ''%'' # F1 @ F2 @ S @ sp # R) args"
  using zrun_inert_insert [OF assms(1-7)] zvsnprintf_inert_insert [OF assms]
  by simp

lemma dec32_digits_42: "dec32_digits 42 = [2, 4, 0, 0, 0, 0, 0, 0, 0, 0]"
  unfolding dec32_digits_def Let_def by simp

lemma dec32_digits_7: "dec32_digits 7 = [7, 0, 0, 0, 0, 0, 0, 0, 0, 0]"
  unfolding dec32_digits_def Let_def by simp

lemma zi32toa_42: "sign fl = auto_sign \<Longrightarrow> zi32toa 42 0 fl = ''42''"
  unfolding zi32toa_def Let_def by (simp add: dec32_digits_42 render_eval)

lemma zi32toa_7: "sign fl = auto_sign \<Longrightarrow> zi32toa 7 0 fl = ''7''"
  unfolding zi32toa_def Let_def by (simp add: dec32_digits_7 render_eval)

lemmas convert_eval = directive_def convert_def int_conv_def render_int_def zitoa_def in_tmp_def

lemma directive_star_precision:
  "directive lp64 ''.*'' CHR ''d'' [AInt 7, AInt 42] = Inr (''42'', [])"
  by (simp add: convert_eval parse_eval flags0_def zi32toa_42)

lemma directive_minus_star:
  "directive lp64 ''.-*'' CHR ''d'' [AInt 7, AInt 42] = Inr (''7'', [AInt 42])"
  by (simp add: convert_eval parse_eval flags0_def zi32toa_7)

lemma upt3: "[0..<3] = [0, 1, 2 :: nat]"
  by (simp add: upt_rec)

lemma zvsnprintf_star_precision:
  "outcome (zvsnprintf lp64 blank 8 ''%.*d'' [AInt 7, AInt 42]) 3 = Some (2, ''42'' @ [NUL])"
proof -
  have c: "cstr ''%.*d'' = [] @ CHR ''%'' # ''.*'' @ CHR ''d'' # []"
    by (simp add: cstr_def NUL_neq_ab NUL_neq_percent)
  have x: "strchr [] CHR ''%'' = None" by (simp add: strchr_def)
  have l: "zloop lp64 8 ([] @ CHR ''%'' # ''.*'' @ CHR ''d'' # []) st =
    (case directive lp64 ''.*'' CHR ''d'' (ap st) of
       Inl e \<Rightarrow> Inl e
     | Inr (tok, ap') \<Rightarrow> zloop lp64 8 [] (put_tok tok ((put_span [] st)\<lparr>ap := ap'\<rparr>)))" for st
    by (rule zloop_valid_directive) (simp_all add: spec_chars_def)
  show ?thesis
    unfolding zvsnprintf_def zrun_def c l
    by (simp add: directive_star_precision zloop_exit [OF x] outcome_def zfinish_def
        put_span_def put_tok_def Let_def ZCOAP_MEMCPY_def upt3)
qed

lemma zvsnprintf_minus_star:
  "outcome (zvsnprintf lp64 blank 8 ''%.-*d'' [AInt 7, AInt 42]) 3
   = Some (1, ''7'' @ [NUL, CHR ''?''])"
proof -
  have c: "cstr ''%.-*d'' = [] @ CHR ''%'' # ''.-*'' @ CHR ''d'' # []"
    by (simp add: cstr_def NUL_neq_ab NUL_neq_percent)
  have x: "strchr [] CHR ''%'' = None" by (simp add: strchr_def)
  have l: "zloop lp64 8 ([] @ CHR ''%'' # ''.-*'' @ CHR ''d'' # []) st =
    (case directive lp64 ''.-*'' CHR ''d'' (ap st) of
       Inl e \<Rightarrow> Inl e
     | Inr (tok, ap') \<Rightarrow> zloop lp64 8 [] (put_tok tok ((put_span [] st)\<lparr>ap := ap'\<rparr>)))" for st
    by (rule zloop_valid_directive) (simp_all add: spec_chars_def)
  show ?thesis
    unfolding zvsnprintf_def zrun_def c l
    by (simp add: directive_minus_star zloop_exit [OF x] outcome_def zfinish_def
        put_span_def put_tok_def Let_def ZCOAP_MEMCPY_def upt3 blank_def)
qed

text \<open>
  C7 (as stated, refuted).  A \<open>-\<close> inserted behind the point of \<open>%.*d\<close> changes the
  output: \<open>%.*d\<close> takes its precision from the first argument and prints the second,
  42; in \<open>%.-*d\<close> the precision is no longer a \<open>*\<close>, no argument is taken for it, and
  the directive prints the first argument, 7.
\<close>

theorem minus_behind_point_changes_output:
  "outcome (zvsnprintf lp64 blank 8 ''%.*d'' [AInt 7, AInt 42]) 3 = Some (2, ''42'' @ [NUL]) \<and>
   outcome (zvsnprintf lp64 blank 8 ''%.-*d'' [AInt 7, AInt 42]) 3
     = Some (1, ''7'' @ [NUL, CHR ''?''])"
  using zvsnprintf_star_precision zvsnprintf_minus_star by simp

lemma inert_witness_hyps:
  "CHR ''%'' \<notin> set ''x=''" "set ''0'' \<subseteq> set ''0-+ #''" "set [] \<subseteq> set ''0-+ #''"
  "CHR ''-'' = CHR ''-'' \<or> CHR ''-'' = CHR ''#''"
  "set ''5'' \<inter> set spec_chars = {}" "CHR ''d'' \<in> set spec_chars"
  "length (''0'' @ CHR ''-'' # [] @ ''5'') < 31"
  "NUL \<notin> set ''x='' \<union> set ''5'' \<union> set ''!''"
  unfolding NUL_def spec_chars_def by code_simp+

text \<open>
  An instance of the amended C7: \<open>x=%0-5d!\<close> and \<open>x=%05d!\<close> with the argument 3.
\<close>

theorem inert_flags_have_no_effect_witness:
  "CHR ''%'' \<notin> set ''x='' \<and> set ''0'' \<subseteq> set ''0-+ #'' \<and> set [] \<subseteq> set ''0-+ #'' \<and>
   (CHR ''-'' = CHR ''-'' \<or> CHR ''-'' = CHR ''#'') \<and>
   set ''5'' \<inter> set spec_chars = {} \<and> CHR ''d'' \<in> set spec_chars \<and>
   length (''0'' @ CHR ''-'' # [] @ ''5'') < 31 \<and>
   NUL \<notin> set ''x='' \<union> set ''5'' \<union> set ''!'' \<and>
   zrun lp64 8 (''x='' @ CHR ''%'' # ''0'' @ CHR ''-'' # [] @ ''5'' @ CHR ''d'' # ''!'')
       \<lparr>remain = 8, len = 0, dest = 0, mem = blank, ap = [AInt 3], ints = []\<rparr>
     = zrun lp64 8 (''x='' @ CHR ''%'' # ''0'' @ [] @ ''5'' @ CHR ''d'' # ''!'')
       \<lparr>remain = 8, len = 0, dest = 0, mem = blank, ap = [AInt 3], ints = []\<rparr> \<and>
   zvsnprintf lp64 blank 8 (''x='' @ CHR ''%'' # ''0'' @ CHR ''-'' # [] @ ''5'' @ CHR ''d'' # ''!'')
       [AInt 3]
     = zvsnprintf lp64 blank 8 (''x='' @ CHR ''%'' # ''0'' @ [] @ ''5'' @ CHR ''d'' # ''!'') [AInt 3]"
  using inert_flags_have_no_effect [OF inert_witness_hyps,
      of lp64 8 "\<lparr>remain = 8, len = 0, dest = 0, mem = blank, ap = [AInt 3], ints = []\<rparr>"
         blank "[AInt 3]"]
    inert_witness_hyps
  by blast

section \<open>The lifetime of the scratch buffer\<close>

lemma dec32_digits_12345: "dec32_digits 12345 = [5, 4, 3, 2, 1, 0, 0, 0, 0, 0]"
  unfolding dec32_digits_def Let_def by simp

lemma zi32toa_12345: "sign fl = auto_sign \<Longrightarrow> zi32toa 12345 0 fl = ''12345''"
  unfolding zi32toa_def Let_def by (simp add: dec32_digits_12345 render_eval)

lemma cstr_char_x: "cstr [char_of (120 :: int)] = ''x''"
  unfolding cstr_def NUL_def by code_simp

lemma directive_d_dead:
  "directive (lp64\<lparr>tmp_kept := False\<rparr>) [] CHR ''d'' [AInt 12345, AInt 120] = Inl DeadTmpRead"
  by (simp add: convert_eval parse_eval flags0_def zi32toa_12345)

lemma directive_d_kept:
  "directive lp64 [] CHR ''d'' [AInt 12345, AInt 120] = Inr (''12345'', [AInt 120])"
  by (simp add: convert_eval parse_eval flags0_def zi32toa_12345)

lemma directive_c_kept:
  "directive lp64 [] CHR ''c'' [AInt 120] = Inr (''x'', [])"
  by (simp add: convert_eval parse_eval flags0_def cstr_char_x)

lemma cstr_dc: "cstr ''%d%c'' = ''%d%c''"
  by (simp add: cstr_def NUL_neq_ab NUL_neq_percent)

lemma zvsnprintf_dc_dead:
  "zvsnprintf (lp64\<lparr>tmp_kept := False\<rparr>) blank 16 ''%d%c'' [AInt 12345, AInt 120]
     = Inl DeadTmpRead"
proof -
  have 1: "strchr ''%d%c'' CHR ''%'' = Some ''%d%c''" by (simp add: strchr_def)
  have 2: "strpbrk (tl ''%d%c'') spec_chars = Some ''d%c''"
    by (simp add: strpbrk_def spec_chars_def)
  show ?thesis
    unfolding zvsnprintf_def zrun_def cstr_dc
    by (simp add: zloop_directive [OF 1 2] getSubspec_def directive_d_dead put_span_def Let_def)
qed

lemma ztext_dc: "ztext lp64 (cstr ''%d%c'') [AInt 12345, AInt 120] = Some ''12345x''"
proof -
  have 1: "strchr ''%d%c'' CHR ''%'' = Some ''%d%c''" by (simp add: strchr_def)
  have 2: "strpbrk (tl ''%d%c'') spec_chars = Some ''d%c''"
    by (simp add: strpbrk_def spec_chars_def)
  have 3: "directive lp64 (getSubspec 31 (take (length (tl ''%d%c'') - length ''d%c'') (tl ''%d%c'')))
             (hd ''d%c'') [AInt 12345, AInt 120] = Inr (''12345'', [AInt 120])"
    by (simp add: getSubspec_def directive_d_kept)
  have 4: "strchr ''%c'' CHR ''%'' = Some ''%c''" by (simp add: strchr_def)
  have 5: "strpbrk (tl ''%c'') spec_chars = Some ''c''" by (simp add: strpbrk_def spec_chars_def)
  have 6: "directive lp64 (getSubspec 31 (take (length (tl ''%c'') - length ''c'') (tl ''%c'')))
             (hd ''c'') [AInt 120] = Inr (''x'', [])"
    by (simp add: getSubspec_def directive_c_kept)
  have 7: "ztext lp64 (tl ''c'') [] = Some []" by (simp add: ztext_exit strchr_def)
  have 8: "ztext lp64 (tl ''d%c'') [AInt 120] = Some ''x''"
    using ztext_directive [OF 4 5 6 7] by simp
  show ?thesis unfolding cstr_dc using ztext_directive [OF 1 2 3 8] by simp
qed

text \<open>
  C1 (the code departs from the claim).  The array \<open>tmp\<close> is declared inside the block
  of \<open>if (spec)\<close>; the token \<open>tok = tmp\<close> is measured and copied behind that block, when
  the lifetime of \<open>tmp\<close> has ended.  The format \<open>%d%c\<close> with the arguments 12345 and
  \<open>x\<close> has the logical text \<open>12345x\<close> of 6 characters.  A build that keeps the bytes of
  \<open>tmp\<close> in place returns 6; on any other build the first directive already reads the
  dead array, and the call has no defined result: the return value need not be 6 and the
  copied bytes need not be those of the text.
\<close>

theorem zvsnprintf_reads_dead_tmp:
  "zvsnprintf (lp64\<lparr>tmp_kept := False\<rparr>) blank 16 ''%d%c'' [AInt 12345, AInt 120]
     = Inl DeadTmpRead \<and>
   ztext lp64 (cstr ''%d%c'') [AInt 12345, AInt 120] = Some ''12345x'' \<and>
   (\<exists>buf'. zvsnprintf lp64 blank 16 ''%d%c'' [AInt 12345, AInt 120] = Inr (6, buf'))"
  using zvsnprintf_dc_dead ztext_dc
    zvsnprintf_assembles_text [OF ztext_dc, of blank 16]
  by auto

end
